theory Spec2Isabelle
  imports Main
begin

section \<open>The extension-host mirror of editor tabs and tab groups\<close>

text \<open>
  A shallow embedding of \<^verbatim>\<open>ExtHostEditorTab\<close>, \<^verbatim>\<open>ExtHostEditorTabGroup\<close> and
  \<^verbatim>\<open>ExtHostEditorTabs\<close>. The classes create objects, hand out references to them and
  compare references with \<^verbatim>\<open>===\<close>, so the model keeps an explicit store: every
  \<^verbatim>\<open>new\<close> and every object literal allocates the next free address, and a field
  that holds an object holds its address. A \<^verbatim>\<open>throw\<close> is a value of the result, next
  to the store as the statements before it left it.
\<close>

subsection \<open>The records sent by the main thread\<close>

type_synonym ref = nat

type_synonym UriComponents = string

text \<open>
  Modelled from the spec: \<^verbatim>\<open>URI.revive\<close> (vs/base/common/uri) is not among the sources.
  The spec speaks of the resource locators a tab record carries; reviving one makes the URI
  object of these components, and the model keeps the components in the object.
\<close>

datatype URI = URI UriComponents

definition URI_revive :: "UriComponents \<Rightarrow> URI" where
  "URI_revive c = URI c"

text \<open>
  Modelled from the spec: the declarations of the records (vs/workbench/api/common/extHost.protocol)
  are not among the sources. The fields are those the spec lists for a tab record, a group
  record and a tab operation, under the names by which the classes read them. The
  \<^verbatim>\<open>input\<close> of a tab record is a union discriminated by its \<^verbatim>\<open>kind\<close> tag: the
  seven tags that \<^verbatim>\<open>_initInput\<close> names are constructors with the fields that the
  \<^verbatim>\<open>switch\<close> reads; every other tag is \<open>OtherInputDto\<close> with the tag's number.
  Numbers are integers.
\<close>

datatype TabInputDto =
    TextInputDto UriComponents
  | TextDiffInputDto UriComponents UriComponents
  | CustomEditorInputDto UriComponents string
  | WebviewEditorInputDto string
  | NotebookInputDto UriComponents string
  | NotebookDiffInputDto UriComponents UriComponents string
  | TerminalEditorInputDto
  | OtherInputDto nat

datatype AnyTabInput =
    TextTabInput URI
  | TextDiffTabInput URI URI
  | CustomEditorTabInput URI string
  | WebviewEditorTabInput string
  | NotebookEditorTabInput URI string
  | NotebookDiffEditorTabInput URI URI string
  | TerminalEditorTabInput

record IEditorTabDto =
  td_id :: string
  td_label :: string
  td_input :: TabInputDto
  td_isActive :: bool
  td_isPinned :: bool
  td_isPreview :: bool
  td_isDirty :: bool

record IEditorTabGroupDto =
  gd_isActive :: bool
  gd_viewColumn :: int
  gd_tabs :: "IEditorTabDto list"
  gd_groupId :: int

datatype TabModelOperationKind = TAB_OPEN | TAB_CLOSE | TAB_UPDATE

record TabOperation =
  op_kind :: TabModelOperationKind
  op_groupId :: int
  op_index :: int
  op_tabDto :: IEditorTabDto

subsection \<open>Objects and the store\<close>

text \<open>
  \<open>t_activeTabIdGetter\<close> is the closure \<^verbatim>\<open>() => this.activeTabId()\<close> that the group
  passes to each of its tabs: the address of the group it captured.
\<close>

record ExtHostEditorTab =
  t_apiObject :: "ref option"
  t_dto :: IEditorTabDto
  t_input :: "AnyTabInput option"
  t_parentGroup :: ref
  t_activeTabIdGetter :: ref

record ExtHostEditorTabGroup =
  g_apiObject :: "ref option"
  g_dto :: IEditorTabGroupDto
  g_tabs :: "ref list"
  g_activeTabId :: string

text \<open>
  The public objects are object literals of getters over \<^verbatim>\<open>that\<close>, passed through
  \<^verbatim>\<open>Object.freeze\<close>: the object holds the address of its projection and the frozen
  flag.
\<close>

record vscode_Tab =
  tab_that :: ref
  tab_frozen :: bool

record vscode_TabGroup =
  group_that :: ref
  group_frozen :: bool

datatype proxy_call =
    closeTab "string list" "bool option"
  | closeGroup "int list" "bool option"
  | moveTab string int int "bool option"

datatype error =
    TabCloseIndexDoesNotExist int
  | INVALID_tab
  | AssertionFailed
  | UpdateGroupBeforeCreation
  | UpdateTabsBeforeCreation
  | Invalid_tab
  | TabCloseInvalidTab
  | GroupCloseInvalidGroup

datatype 'a completion = Throw error | Return 'a

text \<open>
  The state of \<^verbatim>\<open>ExtHostEditorTabs\<close> with the store of the objects it reaches. The two
  emitters are the lists of the payloads fired so far, the proxy is the list of the
  requests sent so far. \<open>activeGroupId\<close> is \<open>None\<close> until the first model arrives
  (\<^verbatim>\<open>_activeGroupId!: number\<close>).
\<close>

record ExtHostEditorTabs =
  heap_next :: ref
  tab_heap :: "ref \<rightharpoonup> ExtHostEditorTab"
  group_heap :: "ref \<rightharpoonup> ExtHostEditorTabGroup"
  apiTab_heap :: "ref \<rightharpoonup> vscode_Tab"
  apiGroup_heap :: "ref \<rightharpoonup> vscode_TabGroup"
  activeGroupId :: "int option"
  extHostTabGroups :: "ref list"
  onDidChangeTabs :: "ref list list"
  onDidChangeTabGroups :: "ref list list"
  proxy :: "proxy_call list"

definition initial :: ExtHostEditorTabs where
  "initial = \<lparr> heap_next = 0, tab_heap = Map.empty, group_heap = Map.empty,
     apiTab_heap = Map.empty, apiGroup_heap = Map.empty, activeGroupId = None,
     extHostTabGroups = [], onDidChangeTabs = [], onDidChangeTabGroups = [], proxy = [] \<rparr>"

definition tabAt :: "ExtHostEditorTabs \<Rightarrow> ref \<Rightarrow> ExtHostEditorTab" where
  "tabAt s t = the (tab_heap s t)"

definition groupAt :: "ExtHostEditorTabs \<Rightarrow> ref \<Rightarrow> ExtHostEditorTabGroup" where
  "groupAt s g = the (group_heap s g)"

subsection \<open>ExtHostEditorTab\<close>

definition initInput :: "ExtHostEditorTab \<Rightarrow> AnyTabInput option" where
  "initInput this =
     (case td_input (t_dto this) of
        TextInputDto uri \<Rightarrow> Some (TextTabInput (URI_revive uri))
      | TextDiffInputDto original modified \<Rightarrow>
          Some (TextDiffTabInput (URI_revive original) (URI_revive modified))
      | CustomEditorInputDto uri viewType \<Rightarrow>
          Some (CustomEditorTabInput (URI_revive uri) viewType)
      | WebviewEditorInputDto viewType \<Rightarrow> Some (WebviewEditorTabInput viewType)
      | NotebookInputDto uri notebookType \<Rightarrow>
          Some (NotebookEditorTabInput (URI_revive uri) notebookType)
      | NotebookDiffInputDto original modified notebookType \<Rightarrow>
          Some (NotebookDiffEditorTabInput (URI_revive original) (URI_revive modified)
                  notebookType)
      | TerminalEditorInputDto \<Rightarrow> Some TerminalEditorTabInput
      | OtherInputDto k \<Rightarrow> None)"

definition acceptDtoUpdate_obj :: "IEditorTabDto \<Rightarrow> ExtHostEditorTab \<Rightarrow> ExtHostEditorTab" where
  "acceptDtoUpdate_obj dto this =
     (let this1 = this\<lparr>t_dto := dto\<rparr> in this1\<lparr>t_input := initInput this1\<rparr>)"

definition acceptDtoUpdate :: "ref \<Rightarrow> IEditorTabDto \<Rightarrow> ExtHostEditorTabs \<Rightarrow> ExtHostEditorTabs" where
  "acceptDtoUpdate t dto s =
     s\<lparr>tab_heap := (tab_heap s)(t \<mapsto> acceptDtoUpdate_obj dto (tabAt s t))\<rparr>"

definition new_ExtHostEditorTab ::
  "IEditorTabDto \<Rightarrow> ref \<Rightarrow> ref \<Rightarrow> ExtHostEditorTabs \<Rightarrow> ref \<times> ExtHostEditorTabs" where
  "new_ExtHostEditorTab dto parentGroup activeTabIdGetter s =
     (let t = heap_next s;
          this = \<lparr> t_apiObject = None, t_dto = dto, t_input = None,
                   t_parentGroup = parentGroup, t_activeTabIdGetter = activeTabIdGetter \<rparr>
      in (t, s\<lparr>heap_next := Suc t,
               tab_heap := (tab_heap s)(t \<mapsto> acceptDtoUpdate_obj dto this)\<rparr>))"

definition tabId :: "ExtHostEditorTabs \<Rightarrow> ref \<Rightarrow> string" where
  "tabId s t = td_id (t_dto (tabAt s t))"

definition tab_apiObject :: "ref \<Rightarrow> ExtHostEditorTabs \<Rightarrow> ref \<times> ExtHostEditorTabs" where
  "tab_apiObject t s =
     (case t_apiObject (tabAt s t) of
        Some obj \<Rightarrow> (obj, s)
      | None \<Rightarrow>
          (let obj = heap_next s
           in (obj, s\<lparr>heap_next := Suc obj,
                      apiTab_heap := (apiTab_heap s)(obj \<mapsto> \<lparr>tab_that = t, tab_frozen = True\<rparr>),
                      tab_heap := (tab_heap s)(t \<mapsto> (tabAt s t)\<lparr>t_apiObject := Some obj\<rparr>)\<rparr>)))"

text \<open>The getters of the public tab object \<open>obj\<close>; each reads through \<^verbatim>\<open>that\<close>.\<close>

definition activeTabId :: "ref \<Rightarrow> ExtHostEditorTabs \<Rightarrow> string" where
  "activeTabId g s = g_activeTabId (groupAt s g)"

definition Tab_that :: "ExtHostEditorTabs \<Rightarrow> ref \<Rightarrow> ExtHostEditorTab" where
  "Tab_that s obj = tabAt s (tab_that (the (apiTab_heap s obj)))"

definition Tab_isActive :: "ref \<Rightarrow> ExtHostEditorTabs \<Rightarrow> bool" where
  "Tab_isActive obj s =
     (td_id (t_dto (Tab_that s obj)) = activeTabId (t_activeTabIdGetter (Tab_that s obj)) s)"

definition Tab_label :: "ref \<Rightarrow> ExtHostEditorTabs \<Rightarrow> string" where
  "Tab_label obj s = td_label (t_dto (Tab_that s obj))"

definition Tab_kind :: "ref \<Rightarrow> ExtHostEditorTabs \<Rightarrow> AnyTabInput option" where
  "Tab_kind obj s = t_input (Tab_that s obj)"

definition Tab_isDirty :: "ref \<Rightarrow> ExtHostEditorTabs \<Rightarrow> bool" where
  "Tab_isDirty obj s = td_isDirty (t_dto (Tab_that s obj))"

definition Tab_isPinned :: "ref \<Rightarrow> ExtHostEditorTabs \<Rightarrow> bool" where
  "Tab_isPinned obj s = td_isPinned (t_dto (Tab_that s obj))"

definition Tab_isPreview :: "ref \<Rightarrow> ExtHostEditorTabs \<Rightarrow> bool" where
  "Tab_isPreview obj s = td_isPreview (t_dto (Tab_that s obj))"

subsection \<open>Array.prototype.splice\<close>

text \<open>
  \<^verbatim>\<open>xs.splice(start, deleteCount, ...items)\<close> on integers: a negative \<open>start\<close> counts
  from the end, a \<open>start\<close> beyond the length is the length, and no more elements are
  deleted than follow the start. The result is the list of the removed elements and the
  array as the call leaves it.
\<close>

definition splice_start :: "int \<Rightarrow> nat \<Rightarrow> nat" where
  "splice_start start len =
     (if start < 0 then nat (max (int len + start) 0) else min (nat start) len)"

definition Array_splice :: "'a list \<Rightarrow> int \<Rightarrow> nat \<Rightarrow> 'a list \<Rightarrow> 'a list \<times> 'a list" where
  "Array_splice xs start deleteCount items =
     (let k = splice_start start (length xs);
          dc = min deleteCount (length xs - k)
      in (take dc (drop k xs), take k xs @ items @ drop (k + dc) xs))"

subsection \<open>ExtHostEditorTabGroup\<close>

definition group_upd ::
  "ref \<Rightarrow> (ExtHostEditorTabGroup \<Rightarrow> ExtHostEditorTabGroup) \<Rightarrow> ExtHostEditorTabs \<Rightarrow> ExtHostEditorTabs" where
  "group_upd g f s = s\<lparr>group_heap := (group_heap s)(g \<mapsto> f (groupAt s g))\<rparr>"

text \<open>The loop of the constructor over \<^verbatim>\<open>dto.tabs\<close>.\<close>

fun construct_tabs :: "ref \<Rightarrow> IEditorTabDto list \<Rightarrow> ExtHostEditorTabs \<Rightarrow> ExtHostEditorTabs" where
  "construct_tabs this [] s = s"
| "construct_tabs this (tabDto # rest) s =
     (let s1 = (if td_isActive tabDto
                then group_upd this (\<lambda>g. g\<lparr>g_activeTabId := td_id tabDto\<rparr>) s else s);
          (t, s2) = new_ExtHostEditorTab tabDto this this s1;
          s3 = group_upd this (\<lambda>g. g\<lparr>g_tabs := g_tabs g @ [t]\<rparr>) s2
      in construct_tabs this rest s3)"

definition new_ExtHostEditorTabGroup ::
  "IEditorTabGroupDto \<Rightarrow> ExtHostEditorTabs \<Rightarrow> ref \<times> ExtHostEditorTabs" where
  "new_ExtHostEditorTabGroup dto s =
     (let this = heap_next s;
          s1 = s\<lparr>heap_next := Suc this,
                 group_heap := (group_heap s)(this \<mapsto>
                   \<lparr> g_apiObject = None, g_dto = dto, g_tabs = [], g_activeTabId = [] \<rparr>)\<rparr>
      in (this, construct_tabs this (gd_tabs dto) s1))"

definition group_apiObject :: "ref \<Rightarrow> ExtHostEditorTabs \<Rightarrow> ref \<times> ExtHostEditorTabs" where
  "group_apiObject g s =
     (case g_apiObject (groupAt s g) of
        Some obj \<Rightarrow> (obj, s)
      | None \<Rightarrow>
          (let obj = heap_next s
           in (obj, s\<lparr>heap_next := Suc obj,
                      apiGroup_heap := (apiGroup_heap s)(obj \<mapsto>
                        \<lparr>group_that = g, group_frozen = True\<rparr>),
                      group_heap := (group_heap s)(g \<mapsto> (groupAt s g)\<lparr>g_apiObject := Some obj\<rparr>)\<rparr>)))"

definition groupId :: "ExtHostEditorTabs \<Rightarrow> ref \<Rightarrow> int" where
  "groupId s g = gd_groupId (g_dto (groupAt s g))"

definition acceptGroupDtoUpdate :: "ref \<Rightarrow> IEditorTabGroupDto \<Rightarrow> ExtHostEditorTabs \<Rightarrow> ExtHostEditorTabs" where
  "acceptGroupDtoUpdate g dto s = group_upd g (\<lambda>this. this\<lparr>g_dto := dto\<rparr>) s"

definition group_acceptTabOperation ::
  "ref \<Rightarrow> TabOperation \<Rightarrow> ExtHostEditorTabs \<Rightarrow> ref completion \<times> ExtHostEditorTabs" where
  "group_acceptTabOperation this operation s =
     (if op_kind operation = TAB_OPEN then
        (let (tab, s1) = new_ExtHostEditorTab (op_tabDto operation) this this s;
             s2 = group_upd this
                    (\<lambda>g. g\<lparr>g_tabs := snd (Array_splice (g_tabs g) (op_index operation) 0 [tab])\<rparr>) s1;
             s3 = (if td_isActive (op_tabDto operation)
                   then group_upd this (\<lambda>g. g\<lparr>g_activeTabId := tabId s2 tab\<rparr>) s2 else s2)
         in (Return tab, s3))
      else if op_kind operation = TAB_CLOSE then
        (let (removed, remaining) = Array_splice (g_tabs (groupAt s this)) (op_index operation) 1 [];
             s1 = group_upd this (\<lambda>g. g\<lparr>g_tabs := remaining\<rparr>) s
         in case removed of
              [] \<Rightarrow> (Throw (TabCloseIndexDoesNotExist (op_index operation)), s1)
            | tab # _ \<Rightarrow>
                (let s2 = (if tabId s1 tab = activeTabId this s1
                           then group_upd this (\<lambda>g. g\<lparr>g_activeTabId := []\<rparr>) s1 else s1)
                 in (Return tab, s2)))
      else
        (case find (\<lambda>extHostTab. tabId s extHostTab = td_id (op_tabDto operation))
                (g_tabs (groupAt s this)) of
           None \<Rightarrow> (Throw INVALID_tab, s)
         | Some tab \<Rightarrow>
             (let s1 = (if td_isActive (op_tabDto operation)
                        then group_upd this (\<lambda>g. g\<lparr>g_activeTabId := td_id (op_tabDto operation)\<rparr>) s
                        else if activeTabId this s = td_id (op_tabDto operation)
                                \<and> \<not> td_isActive (op_tabDto operation)
                        then group_upd this (\<lambda>g. g\<lparr>g_activeTabId := []\<rparr>) s
                        else s)
              in (Return tab, acceptDtoUpdate tab (op_tabDto operation) s1))))"

text \<open>The getters of the public group object \<open>obj\<close>.\<close>

definition Group_that :: "ExtHostEditorTabs \<Rightarrow> ref \<Rightarrow> ref" where
  "Group_that s obj = group_that (the (apiGroup_heap s obj))"

definition Group_isActive :: "ref \<Rightarrow> ExtHostEditorTabs \<Rightarrow> bool" where
  "Group_isActive obj s = (Some (groupId s (Group_that s obj)) = activeGroupId s)"

fun tabs_apiObjects :: "ref list \<Rightarrow> ExtHostEditorTabs \<Rightarrow> ref list \<times> ExtHostEditorTabs" where
  "tabs_apiObjects [] s = ([], s)"
| "tabs_apiObjects (t # ts) s =
     (let (obj, s1) = tab_apiObject t s;
          (objs, s2) = tabs_apiObjects ts s1
      in (obj # objs, s2))"

definition Group_tabs :: "ref \<Rightarrow> ExtHostEditorTabs \<Rightarrow> ref list \<times> ExtHostEditorTabs" where
  "Group_tabs obj s = tabs_apiObjects (g_tabs (groupAt s (Group_that s obj))) s"

definition Group_activeTab :: "ref \<Rightarrow> ExtHostEditorTabs \<Rightarrow> ref option \<times> ExtHostEditorTabs" where
  "Group_activeTab obj s =
     (let that = Group_that s obj
      in case find (\<lambda>tab. tabId s tab = g_activeTabId (groupAt s that)) (g_tabs (groupAt s that)) of
           None \<Rightarrow> (None, s)
         | Some tab \<Rightarrow> (let (o', s1) = tab_apiObject tab s in (Some o', s1)))"

definition Tab_group :: "ref \<Rightarrow> ExtHostEditorTabs \<Rightarrow> ref \<times> ExtHostEditorTabs" where
  "Tab_group obj s = group_apiObject (t_parentGroup (Tab_that s obj)) s"

subsection \<open>ExtHostEditorTabs\<close>

fun construct_groups ::
  "IEditorTabGroupDto list \<Rightarrow> ExtHostEditorTabs \<Rightarrow> ref list \<times> ExtHostEditorTabs" where
  "construct_groups [] s = ([], s)"
| "construct_groups (tabGroup # rest) s =
     (let (grp, s1) = new_ExtHostEditorTabGroup tabGroup s;
          (groups, s2) = construct_groups rest s1
      in (grp # groups, s2))"

fun groups_apiObjects :: "ref list \<Rightarrow> ExtHostEditorTabs \<Rightarrow> ref list \<times> ExtHostEditorTabs" where
  "groups_apiObjects [] s = ([], s)"
| "groups_apiObjects (g # gs) s =
     (let (obj, s1) = group_apiObject g s;
          (objs, s2) = groups_apiObjects gs s1
      in (obj # objs, s2))"

text \<open>
  Modelled from the spec: \<^verbatim>\<open>assertIsDefined\<close> (vs/base/common/types) is not among the
  sources. The spec has the snapshot fail when no record is flagged active, which is the
  argument being undefined: the call throws then, and returns its argument otherwise.
\<close>

definition acceptEditorTabModel ::
  "IEditorTabGroupDto list \<Rightarrow> ExtHostEditorTabs \<Rightarrow> unit completion \<times> ExtHostEditorTabs" where
  "acceptEditorTabModel tabGroups s =
     (let (groups, s1) = construct_groups tabGroups s;
          s2 = s1\<lparr>extHostTabGroups := groups\<rparr>
      in case find (\<lambda>grp. gd_isActive grp = True) tabGroups of
           None \<Rightarrow> (Throw AssertionFailed, s2)
         | Some grp \<Rightarrow>
             (let activeTabGroupId = gd_groupId grp;
                  s3 = (if activeGroupId s2 \<noteq> Some activeTabGroupId
                        then s2\<lparr>activeGroupId := Some activeTabGroupId\<rparr> else s2);
                  (objs, s4) = groups_apiObjects (extHostTabGroups s3) s3
              in (Return (), s4\<lparr>onDidChangeTabGroups := onDidChangeTabGroups s4 @ [objs]\<rparr>)))"

definition acceptTabGroupUpdate ::
  "IEditorTabGroupDto \<Rightarrow> ExtHostEditorTabs \<Rightarrow> unit completion \<times> ExtHostEditorTabs" where
  "acceptTabGroupUpdate groupDto s =
     (case find (\<lambda>grp. groupId s grp = gd_groupId groupDto) (extHostTabGroups s) of
        None \<Rightarrow> (Throw UpdateGroupBeforeCreation, s)
      | Some grp \<Rightarrow>
          (let s1 = acceptGroupDtoUpdate grp groupDto s;
               s2 = (if gd_isActive groupDto
                     then s1\<lparr>activeGroupId := Some (gd_groupId groupDto)\<rparr> else s1);
               (obj, s3) = group_apiObject grp s2
           in (Return (), s3\<lparr>onDidChangeTabGroups := onDidChangeTabGroups s3 @ [[obj]]\<rparr>)))"

definition acceptTabOperation ::
  "TabOperation \<Rightarrow> ExtHostEditorTabs \<Rightarrow> unit completion \<times> ExtHostEditorTabs" where
  "acceptTabOperation operation s =
     (case find (\<lambda>grp. groupId s grp = op_groupId operation) (extHostTabGroups s) of
        None \<Rightarrow> (Throw UpdateTabsBeforeCreation, s)
      | Some grp \<Rightarrow>
          (case group_acceptTabOperation grp operation s of
             (Throw e, s1) \<Rightarrow> (Throw e, s1)
           | (Return tab, s1) \<Rightarrow>
               (if op_kind operation \<noteq> TAB_CLOSE
                then (let (obj, s2) = tab_apiObject tab s1
                      in (Return (), s2\<lparr>onDidChangeTabs := onDidChangeTabs s2 @ [[obj]]\<rparr>))
                else (Return (), s1))))"

text \<open>The two loops of \<^verbatim>\<open>_findExtHostTabFromApi\<close>, the inner one first.\<close>

fun findTabFromApi_tabs ::
  "ref \<Rightarrow> ref list \<Rightarrow> ExtHostEditorTabs \<Rightarrow> ref option \<times> ExtHostEditorTabs" where
  "findTabFromApi_tabs apiTab [] s = (None, s)"
| "findTabFromApi_tabs apiTab (tab # rest) s =
     (let (obj, s1) = tab_apiObject tab s
      in if obj = apiTab then (Some tab, s1) else findTabFromApi_tabs apiTab rest s1)"

fun findTabFromApi_groups ::
  "ref \<Rightarrow> ref list \<Rightarrow> ExtHostEditorTabs \<Rightarrow> ref option \<times> ExtHostEditorTabs" where
  "findTabFromApi_groups apiTab [] s = (None, s)"
| "findTabFromApi_groups apiTab (grp # rest) s =
     (case findTabFromApi_tabs apiTab (g_tabs (groupAt s grp)) s of
        (Some tab, s1) \<Rightarrow> (Some tab, s1)
      | (None, s1) \<Rightarrow> findTabFromApi_groups apiTab rest s1)"

definition findExtHostTabFromApi ::
  "ref \<Rightarrow> ExtHostEditorTabs \<Rightarrow> ref option \<times> ExtHostEditorTabs" where
  "findExtHostTabFromApi apiTab s = findTabFromApi_groups apiTab (extHostTabGroups s) s"

text \<open>\<^verbatim>\<open>find\<close> with a callback that reads \<^verbatim>\<open>candidate.apiObject\<close>.\<close>

fun findGroupFromApi_groups ::
  "ref \<Rightarrow> ref list \<Rightarrow> ExtHostEditorTabs \<Rightarrow> ref option \<times> ExtHostEditorTabs" where
  "findGroupFromApi_groups apiTabGroup [] s = (None, s)"
| "findGroupFromApi_groups apiTabGroup (candidate # rest) s =
     (let (obj, s1) = group_apiObject candidate s
      in if obj = apiTabGroup then (Some candidate, s1)
         else findGroupFromApi_groups apiTabGroup rest s1)"

definition findExtHostTabGroupFromApi ::
  "ref \<Rightarrow> ExtHostEditorTabs \<Rightarrow> ref option \<times> ExtHostEditorTabs" where
  "findExtHostTabGroupFromApi apiTabGroup s =
     findGroupFromApi_groups apiTabGroup (extHostTabGroups s) s"

text \<open>
  The loops of \<^verbatim>\<open>_closeTabs\<close> and \<^verbatim>\<open>_closeGroups\<close> collect the ids; the request goes to
  the proxy after the loop. \<open>reply\<close> is what the main thread answers to the request.
\<close>

fun closeTabs_loop ::
  "ref list \<Rightarrow> string list \<Rightarrow> ExtHostEditorTabs \<Rightarrow> string list completion \<times> ExtHostEditorTabs" where
  "closeTabs_loop [] extHostTabIds s = (Return extHostTabIds, s)"
| "closeTabs_loop (tab # rest) extHostTabIds s =
     (case findExtHostTabFromApi tab s of
        (None, s1) \<Rightarrow> (Throw TabCloseInvalidTab, s1)
      | (Some extHostTab, s1) \<Rightarrow> closeTabs_loop rest (extHostTabIds @ [tabId s1 extHostTab]) s1)"

definition closeTabs ::
  "(proxy_call \<Rightarrow> bool) \<Rightarrow> ref list \<Rightarrow> bool option \<Rightarrow> ExtHostEditorTabs
    \<Rightarrow> bool completion \<times> ExtHostEditorTabs" where
  "closeTabs reply tabs preserveFocus s =
     (case closeTabs_loop tabs [] s of
        (Throw e, s1) \<Rightarrow> (Throw e, s1)
      | (Return extHostTabIds, s1) \<Rightarrow>
          (Return (reply (closeTab extHostTabIds preserveFocus)),
           s1\<lparr>proxy := proxy s1 @ [closeTab extHostTabIds preserveFocus]\<rparr>))"

fun closeGroups_loop ::
  "ref list \<Rightarrow> int list \<Rightarrow> ExtHostEditorTabs \<Rightarrow> int list completion \<times> ExtHostEditorTabs" where
  "closeGroups_loop [] extHostGroupIds s = (Return extHostGroupIds, s)"
| "closeGroups_loop (grp # rest) extHostGroupIds s =
     (case findExtHostTabGroupFromApi grp s of
        (None, s1) \<Rightarrow> (Throw GroupCloseInvalidGroup, s1)
      | (Some extHostGroup, s1) \<Rightarrow>
          closeGroups_loop rest (extHostGroupIds @ [groupId s1 extHostGroup]) s1)"

definition closeGroups ::
  "(proxy_call \<Rightarrow> bool) \<Rightarrow> ref list \<Rightarrow> bool option \<Rightarrow> ExtHostEditorTabs
    \<Rightarrow> bool completion \<times> ExtHostEditorTabs" where
  "closeGroups reply groups preserverFoucs s =
     (case closeGroups_loop groups [] s of
        (Throw e, s1) \<Rightarrow> (Throw e, s1)
      | (Return extHostGroupIds, s1) \<Rightarrow>
          (Return (reply (closeGroup extHostGroupIds preserverFoucs)),
           s1\<lparr>proxy := proxy s1 @ [closeGroup extHostGroupIds preserverFoucs]\<rparr>))"

text \<open>
  \<^verbatim>\<open>isTabGroup\<close> reads the \<^verbatim>\<open>tabs\<close> property of its argument. On a public group
  object that runs the getter, which creates the public objects of the group's tabs; a
  public tab object has no such property; for any other object \<open>other_has_tabs\<close> says
  whether it has one.
\<close>

definition isTabGroup ::
  "(ref \<Rightarrow> bool) \<Rightarrow> ref \<Rightarrow> ExtHostEditorTabs \<Rightarrow> bool \<times> ExtHostEditorTabs" where
  "isTabGroup other_has_tabs obj s =
     (if apiGroup_heap s obj \<noteq> None then (True, snd (Group_tabs obj s))
      else if apiTab_heap s obj \<noteq> None then (False, s)
      else (other_has_tabs obj, s))"

text \<open>\<^verbatim>\<open>tabGroups.close\<close>, on the array that it makes of its argument.\<close>

definition TabGroups_close ::
  "(ref \<Rightarrow> bool) \<Rightarrow> (proxy_call \<Rightarrow> bool) \<Rightarrow> ref list \<Rightarrow> bool option \<Rightarrow> ExtHostEditorTabs
    \<Rightarrow> bool completion \<times> ExtHostEditorTabs" where
  "TabGroups_close other_has_tabs reply tabsOrTabGroups preserveFocus s =
     (case tabsOrTabGroups of
        [] \<Rightarrow> (Return True, s)
      | first # _ \<Rightarrow>
          (let (is_group, s1) = isTabGroup other_has_tabs first s
           in if is_group then closeGroups reply tabsOrTabGroups preserveFocus s1
              else closeTabs reply tabsOrTabGroups preserveFocus s1))"

text \<open>The getters of \<^verbatim>\<open>tabGroups\<close>.\<close>

definition TabGroups_groups :: "ExtHostEditorTabs \<Rightarrow> ref list \<times> ExtHostEditorTabs" where
  "TabGroups_groups s = groups_apiObjects (extHostTabGroups s) s"

definition TabGroups_activeTabGroup :: "ExtHostEditorTabs \<Rightarrow> ref completion \<times> ExtHostEditorTabs" where
  "TabGroups_activeTabGroup s =
     (case find (\<lambda>candidate. Some (groupId s candidate) = activeGroupId s) (extHostTabGroups s) of
        None \<Rightarrow> (Throw AssertionFailed, s)
      | Some candidate \<Rightarrow> (let (obj, s1) = group_apiObject candidate s in (Return obj, s1)))"

text \<open>
  \<^verbatim>\<open>typeConverters.ViewColumn.from\<close> is not among the sources: \<open>ViewColumn_from\<close> is a
  parameter of \<open>move\<close>.
\<close>

definition move ::
  "(int \<Rightarrow> int) \<Rightarrow> ref \<Rightarrow> int \<Rightarrow> int \<Rightarrow> bool option \<Rightarrow> ExtHostEditorTabs
    \<Rightarrow> unit completion \<times> ExtHostEditorTabs" where
  "move ViewColumn_from tab viewColumn index preservceFocus s =
     (case findExtHostTabFromApi tab s of
        (None, s1) \<Rightarrow> (Throw Invalid_tab, s1)
      | (Some extHostTab, s1) \<Rightarrow>
          (Return (), s1\<lparr>proxy := proxy s1 @
             [moveTab (tabId s1 extHostTab) index (ViewColumn_from viewColumn) preservceFocus]\<rparr>))"

subsection \<open>Reachable states\<close>

text \<open>
  The states of the mirror: the initial one, and every state that a notification of the
  main thread or a call or getter of the public interface leaves behind, whether it
  returns or throws. The getters count because they create public objects on demand.
\<close>

inductive reachable :: "ExtHostEditorTabs \<Rightarrow> bool" where
  r_initial: "reachable initial"
| r_model: "reachable s \<Longrightarrow> reachable (snd (acceptEditorTabModel tabGroups s))"
| r_groupUpdate: "reachable s \<Longrightarrow> reachable (snd (acceptTabGroupUpdate groupDto s))"
| r_tabOperation: "reachable s \<Longrightarrow> reachable (snd (acceptTabOperation operation s))"
| r_groups: "reachable s \<Longrightarrow> reachable (snd (TabGroups_groups s))"
| r_activeTabGroup: "reachable s \<Longrightarrow> reachable (snd (TabGroups_activeTabGroup s))"
| r_tabs: "reachable s \<Longrightarrow> apiGroup_heap s obj \<noteq> None \<Longrightarrow> reachable (snd (Group_tabs obj s))"
| r_activeTab: "reachable s \<Longrightarrow> apiGroup_heap s obj \<noteq> None \<Longrightarrow> reachable (snd (Group_activeTab obj s))"
| r_tabGroup: "reachable s \<Longrightarrow> apiTab_heap s obj \<noteq> None \<Longrightarrow> reachable (snd (Tab_group obj s))"
| r_closeTabs: "reachable s \<Longrightarrow> reachable (snd (closeTabs reply tabs preserveFocus s))"
| r_closeGroups: "reachable s \<Longrightarrow> reachable (snd (closeGroups reply groups preserveFocus s))"
| r_close: "reachable s \<Longrightarrow>
    reachable (snd (TabGroups_close other_has_tabs reply tabsOrTabGroups preserveFocus s))"
| r_move: "reachable s \<Longrightarrow> reachable (snd (move ViewColumn_from tab viewColumn index preserveFocus s))"

text \<open>
  The shape of the store in a reachable state: every object lies below the next free
  address, a public object and its projection point at each other, and the tabs in a
  group's list exist and carry the getter of that group.
\<close>

definition tab_wf :: "ExtHostEditorTabs \<Rightarrow> ref \<Rightarrow> ExtHostEditorTab \<Rightarrow> bool" where
  "tab_wf s t tab \<longleftrightarrow>
     t < heap_next s \<and> group_heap s (t_parentGroup tab) \<noteq> None \<and>
     (\<forall>obj. t_apiObject tab = Some obj \<longrightarrow>
        obj < heap_next s \<and> apiTab_heap s obj = Some \<lparr>tab_that = t, tab_frozen = True\<rparr>)"

definition group_wf :: "ExtHostEditorTabs \<Rightarrow> ref \<Rightarrow> ExtHostEditorTabGroup \<Rightarrow> bool" where
  "group_wf s g grp \<longleftrightarrow>
     g < heap_next s \<and>
     (\<forall>obj. g_apiObject grp = Some obj \<longrightarrow>
        obj < heap_next s \<and> apiGroup_heap s obj = Some \<lparr>group_that = g, group_frozen = True\<rparr>) \<and>
     (\<forall>t\<in>set (g_tabs grp). \<exists>tab. tab_heap s t = Some tab \<and>
        t_activeTabIdGetter tab = g \<and> t_parentGroup tab = g)"

definition tabs_ok :: "ExtHostEditorTabs \<Rightarrow> bool" where
  "tabs_ok s \<longleftrightarrow> (\<forall>t tab. tab_heap s t = Some tab \<longrightarrow> tab_wf s t tab)"

definition groups_ok :: "ExtHostEditorTabs \<Rightarrow> bool" where
  "groups_ok s \<longleftrightarrow> (\<forall>g grp. group_heap s g = Some grp \<longrightarrow> group_wf s g grp)"

definition apis_ok :: "ExtHostEditorTabs \<Rightarrow> bool" where
  "apis_ok s \<longleftrightarrow>
     (\<forall>obj x. apiTab_heap s obj = Some x \<longrightarrow> obj < heap_next s \<and> tab_heap s (tab_that x) \<noteq> None) \<and>
     (\<forall>obj x. apiGroup_heap s obj = Some x \<longrightarrow> obj < heap_next s \<and> group_heap s (group_that x) \<noteq> None)"

definition store_ok :: "ExtHostEditorTabs \<Rightarrow> bool" where
  "store_ok s \<longleftrightarrow> (\<forall>g\<in>set (extHostTabGroups s). group_heap s g \<noteq> None)"

definition heap_inv :: "ExtHostEditorTabs \<Rightarrow> bool" where
  "heap_inv s \<longleftrightarrow> tabs_ok s \<and> groups_ok s \<and> apis_ok s \<and> store_ok s"

text \<open>
  A later store extends an earlier one: nothing is freed, the public objects that exist
  stay as they are, and a tab keeps its group and its getter.
\<close>

definition hext :: "ExtHostEditorTabs \<Rightarrow> ExtHostEditorTabs \<Rightarrow> bool" where
  "hext s s' \<longleftrightarrow>
     heap_next s \<le> heap_next s' \<and>
     (\<forall>g. group_heap s g \<noteq> None \<longrightarrow> group_heap s' g \<noteq> None) \<and>
     (\<forall>obj. obj < heap_next s \<longrightarrow>
        apiTab_heap s' obj = apiTab_heap s obj \<and> apiGroup_heap s' obj = apiGroup_heap s obj) \<and>
     (\<forall>t tab. tab_heap s t = Some tab \<longrightarrow>
        (\<exists>tab'. tab_heap s' t = Some tab' \<and>
           t_activeTabIdGetter tab' = t_activeTabIdGetter tab \<and>
           t_parentGroup tab' = t_parentGroup tab))"

subsection \<open>Resolving a public object\<close>

text \<open>
  A public tab object resolves in a state when it is the memoized public object of a tab in
  the list of a group of the store; a public group object, when it is that of a group of
  the store.
\<close>

definition resolvesTab :: "ExtHostEditorTabs \<Rightarrow> ref \<Rightarrow> bool" where
  "resolvesTab s apiTab \<longleftrightarrow>
     (\<exists>g\<in>set (extHostTabGroups s). \<exists>t\<in>set (g_tabs (groupAt s g)).
        t_apiObject (tabAt s t) = Some apiTab)"

definition resolvesGroup :: "ExtHostEditorTabs \<Rightarrow> ref \<Rightarrow> bool" where
  "resolvesGroup s apiTabGroup \<longleftrightarrow>
     (\<exists>g\<in>set (extHostTabGroups s). g_apiObject (groupAt s g) = Some apiTabGroup)"

subsection \<open>The example scenario\<close>

definition tab_a :: IEditorTabDto where
  "tab_a = \<lparr> td_id = ''a'', td_label = ''a.txt'', td_input = TextInputDto ''file:///a.txt'',
     td_isActive = True, td_isPinned = False, td_isPreview = False, td_isDirty = False \<rparr>"

definition tab_b :: IEditorTabDto where
  "tab_b = \<lparr> td_id = ''b'', td_label = ''b.txt'', td_input = TextInputDto ''file:///b.txt'',
     td_isActive = False, td_isPinned = False, td_isPreview = False, td_isDirty = False \<rparr>"

definition group_1 :: IEditorTabGroupDto where
  "group_1 = \<lparr> gd_isActive = True, gd_viewColumn = 0, gd_tabs = [tab_a], gd_groupId = 1 \<rparr>"

definition after_snapshot :: ExtHostEditorTabs where
  "after_snapshot = snd (acceptEditorTabModel [group_1] initial)"

definition open_b :: TabOperation where
  "open_b = \<lparr> op_kind = TAB_OPEN, op_groupId = 1, op_index = 1, op_tabDto = tab_b \<rparr>"

definition after_open :: ExtHostEditorTabs where
  "after_open = snd (acceptTabOperation open_b after_snapshot)"

definition update_a_inactive :: TabOperation where
  "update_a_inactive = \<lparr> op_kind = TAB_UPDATE, op_groupId = 1, op_index = 0,
       op_tabDto = tab_a\<lparr>td_isActive := False\<rparr> \<rparr>"

definition after_update :: ExtHostEditorTabs where
  "after_update = snd (acceptTabOperation update_a_inactive after_open)"

definition close_0 :: TabOperation where
  "close_0 = \<lparr> op_kind = TAB_CLOSE, op_groupId = 1, op_index = 0, op_tabDto = tab_a \<rparr>"

definition after_close :: ExtHostEditorTabs where
  "after_close = snd (acceptTabOperation close_0 after_update)"

text \<open>Further inputs: a group that is not flagged active, and a close at index -1.\<close>

definition group_2_inactive :: IEditorTabGroupDto where
  "group_2_inactive = \<lparr> gd_isActive = False, gd_viewColumn = 1, gd_tabs = [tab_b], gd_groupId = 2 \<rparr>"

definition close_minus_1 :: TabOperation where
  "close_minus_1 = \<lparr> op_kind = TAB_CLOSE, op_groupId = 1, op_index = - 1, op_tabDto = tab_a \<rparr>"

text \<open>A later record of tab \<open>a\<close>.\<close>

definition tab_a_dirty :: IEditorTabDto where
  "tab_a_dirty = tab_a\<lparr> td_label := ''a.txt (edited)'', td_isDirty := True \<rparr>"

section \<open>Properties\<close>

subsection \<open>What each step leaves alone\<close>

lemma group_upd_fields [simp]:
  "heap_next (group_upd g f s) = heap_next s"
  "tab_heap (group_upd g f s) = tab_heap s"
  "apiTab_heap (group_upd g f s) = apiTab_heap s"
  "apiGroup_heap (group_upd g f s) = apiGroup_heap s"
  "activeGroupId (group_upd g f s) = activeGroupId s"
  "extHostTabGroups (group_upd g f s) = extHostTabGroups s"
  "onDidChangeTabs (group_upd g f s) = onDidChangeTabs s"
  "onDidChangeTabGroups (group_upd g f s) = onDidChangeTabGroups s"
  "proxy (group_upd g f s) = proxy s"
  "group_heap (group_upd g f s) = (group_heap s)(g \<mapsto> f (groupAt s g))"
  by (simp_all add: group_upd_def)

lemma groupAt_group_upd [simp]:
  "groupAt (group_upd g f s) g' = (if g' = g then f (groupAt s g) else groupAt s g')"
  by (simp add: groupAt_def)

lemma tabAt_group_upd [simp]: "tabAt (group_upd g f s) t = tabAt s t"
  by (simp add: tabAt_def)

lemma tabId_group_upd [simp]: "tabId (group_upd g f s) t = tabId s t"
  by (simp add: tabId_def)

lemma acceptDtoUpdate_fields [simp]:
  "heap_next (acceptDtoUpdate t dto s) = heap_next s"
  "group_heap (acceptDtoUpdate t dto s) = group_heap s"
  "apiTab_heap (acceptDtoUpdate t dto s) = apiTab_heap s"
  "apiGroup_heap (acceptDtoUpdate t dto s) = apiGroup_heap s"
  "activeGroupId (acceptDtoUpdate t dto s) = activeGroupId s"
  "extHostTabGroups (acceptDtoUpdate t dto s) = extHostTabGroups s"
  "onDidChangeTabs (acceptDtoUpdate t dto s) = onDidChangeTabs s"
  "onDidChangeTabGroups (acceptDtoUpdate t dto s) = onDidChangeTabGroups s"
  "proxy (acceptDtoUpdate t dto s) = proxy s"
  "tab_heap (acceptDtoUpdate t dto s) = (tab_heap s)(t \<mapsto> acceptDtoUpdate_obj dto (tabAt s t))"
  by (simp_all add: acceptDtoUpdate_def)

lemma groupAt_acceptDtoUpdate [simp]: "groupAt (acceptDtoUpdate t dto s) g = groupAt s g"
  by (simp add: groupAt_def)

lemma tabAt_acceptDtoUpdate [simp]:
  "tabAt (acceptDtoUpdate t dto s) t' = (if t' = t then acceptDtoUpdate_obj dto (tabAt s t) else tabAt s t')"
  by (simp add: tabAt_def)

lemma acceptDtoUpdate_obj_fields [simp]:
  "t_dto (acceptDtoUpdate_obj dto this) = dto"
  "t_apiObject (acceptDtoUpdate_obj dto this) = t_apiObject this"
  "t_parentGroup (acceptDtoUpdate_obj dto this) = t_parentGroup this"
  "t_activeTabIdGetter (acceptDtoUpdate_obj dto this) = t_activeTabIdGetter this"
  "t_input (acceptDtoUpdate_obj dto this) = initInput (this\<lparr>t_dto := dto\<rparr>)"
  by (simp_all add: acceptDtoUpdate_obj_def Let_def)

lemma new_ExtHostEditorTab_fields [simp]:
  "fst (new_ExtHostEditorTab dto p a s) = heap_next s"
  "heap_next (snd (new_ExtHostEditorTab dto p a s)) = Suc (heap_next s)"
  "group_heap (snd (new_ExtHostEditorTab dto p a s)) = group_heap s"
  "apiTab_heap (snd (new_ExtHostEditorTab dto p a s)) = apiTab_heap s"
  "apiGroup_heap (snd (new_ExtHostEditorTab dto p a s)) = apiGroup_heap s"
  "activeGroupId (snd (new_ExtHostEditorTab dto p a s)) = activeGroupId s"
  "extHostTabGroups (snd (new_ExtHostEditorTab dto p a s)) = extHostTabGroups s"
  "onDidChangeTabs (snd (new_ExtHostEditorTab dto p a s)) = onDidChangeTabs s"
  "onDidChangeTabGroups (snd (new_ExtHostEditorTab dto p a s)) = onDidChangeTabGroups s"
  "proxy (snd (new_ExtHostEditorTab dto p a s)) = proxy s"
  "tab_heap (snd (new_ExtHostEditorTab dto p a s)) =
     (tab_heap s)(heap_next s \<mapsto> acceptDtoUpdate_obj dto
        \<lparr> t_apiObject = None, t_dto = dto, t_input = None, t_parentGroup = p, t_activeTabIdGetter = a \<rparr>)"
  by (simp_all add: new_ExtHostEditorTab_def Let_def)

lemma groupAt_new_ExtHostEditorTab [simp]:
  "groupAt (snd (new_ExtHostEditorTab dto p a s)) g = groupAt s g"
  by (simp add: groupAt_def)

lemma tab_apiObject_fields [simp]:
  "group_heap (snd (tab_apiObject t s)) = group_heap s"
  "apiGroup_heap (snd (tab_apiObject t s)) = apiGroup_heap s"
  "activeGroupId (snd (tab_apiObject t s)) = activeGroupId s"
  "extHostTabGroups (snd (tab_apiObject t s)) = extHostTabGroups s"
  "onDidChangeTabs (snd (tab_apiObject t s)) = onDidChangeTabs s"
  "onDidChangeTabGroups (snd (tab_apiObject t s)) = onDidChangeTabGroups s"
  "proxy (snd (tab_apiObject t s)) = proxy s"
  by (simp_all add: tab_apiObject_def Let_def split: option.split)

lemma groupAt_tab_apiObject [simp]: "groupAt (snd (tab_apiObject t s)) g = groupAt s g"
  by (simp add: groupAt_def)

lemma group_apiObject_fields [simp]:
  "tab_heap (snd (group_apiObject g s)) = tab_heap s"
  "apiTab_heap (snd (group_apiObject g s)) = apiTab_heap s"
  "activeGroupId (snd (group_apiObject g s)) = activeGroupId s"
  "extHostTabGroups (snd (group_apiObject g s)) = extHostTabGroups s"
  "onDidChangeTabs (snd (group_apiObject g s)) = onDidChangeTabs s"
  "onDidChangeTabGroups (snd (group_apiObject g s)) = onDidChangeTabGroups s"
  "proxy (snd (group_apiObject g s)) = proxy s"
  by (simp_all add: group_apiObject_def Let_def split: option.split)

lemma tabAt_group_apiObject [simp]: "tabAt (snd (group_apiObject g s)) t = tabAt s t"
  by (simp add: tabAt_def)

lemma find_first_tab:
  assumes "\<exists>t\<in>set ts. P t"
  shows "\<exists>t. find P ts = Some t \<and> P t \<and> t \<in> set ts"
  using assms by (induction ts) auto

subsection \<open>The kind of a tab\<close>

text \<open>
  Claim C9. \<^verbatim>\<open>_initInput\<close> is total on the input descriptor of the record held by the
  tab: each of the seven known tags gives the constructor of that kind applied to the
  fields of the variant, the locators revived, and any other tag gives undefined
  (\<open>None\<close>); no branch throws.
\<close>

theorem initInput_total:
  "initInput (this\<lparr>t_dto := dto\<lparr>td_input := TextInputDto uri\<rparr>\<rparr>) = Some (TextTabInput (URI_revive uri))
   \<and> initInput (this\<lparr>t_dto := dto\<lparr>td_input := TextDiffInputDto original modified\<rparr>\<rparr>)
       = Some (TextDiffTabInput (URI_revive original) (URI_revive modified))
   \<and> initInput (this\<lparr>t_dto := dto\<lparr>td_input := CustomEditorInputDto uri viewType\<rparr>\<rparr>)
       = Some (CustomEditorTabInput (URI_revive uri) viewType)
   \<and> initInput (this\<lparr>t_dto := dto\<lparr>td_input := WebviewEditorInputDto viewType\<rparr>\<rparr>)
       = Some (WebviewEditorTabInput viewType)
   \<and> initInput (this\<lparr>t_dto := dto\<lparr>td_input := NotebookInputDto uri notebookType\<rparr>\<rparr>)
       = Some (NotebookEditorTabInput (URI_revive uri) notebookType)
   \<and> initInput (this\<lparr>t_dto := dto\<lparr>td_input := NotebookDiffInputDto original modified notebookType\<rparr>\<rparr>)
       = Some (NotebookDiffEditorTabInput (URI_revive original) (URI_revive modified) notebookType)
   \<and> initInput (this\<lparr>t_dto := dto\<lparr>td_input := TerminalEditorInputDto\<rparr>\<rparr>) = Some TerminalEditorTabInput
   \<and> initInput (this\<lparr>t_dto := dto\<lparr>td_input := OtherInputDto k\<rparr>\<rparr>) = None"
  by (simp add: initInput_def)

subsection \<open>The example scenario, evaluated\<close>

lemmas scenario_defs =
  after_close_def close_0_def after_update_def update_a_inactive_def after_open_def open_b_def
  after_snapshot_def tab_a_def tab_b_def group_1_def initial_def

lemmas step_defs =
  acceptTabOperation_def acceptEditorTabModel_def acceptTabGroupUpdate_def
  group_acceptTabOperation_def new_ExtHostEditorTabGroup_def new_ExtHostEditorTab_def
  group_apiObject_def tab_apiObject_def group_upd_def groupAt_def tabAt_def groupId_def
  tabId_def Array_splice_def splice_start_def acceptDtoUpdate_def acceptDtoUpdate_obj_def
  initInput_def activeTabId_def Let_def

lemma after_update_group:
  "extHostTabGroups after_update = [0]"
  "g_tabs (groupAt after_update 0) = [Suc 0, 3]"
  "g_activeTabId (groupAt after_update 0) = []"
  "tabId after_update (Suc 0) = ''a''"
  "tabId after_update 3 = ''b''"
  "onDidChangeTabs after_update = [[4], [5]]"
  "onDidChangeTabGroups after_update = [[2]]"
  "t_apiObject (tabAt after_update (Suc 0)) = Some 5"
  "t_apiObject (tabAt after_update 3) = Some 4"
  by (simp_all add: scenario_defs step_defs)

lemma after_open_group:
  "extHostTabGroups after_open = [0]"
  "g_tabs (groupAt after_open 0) = [Suc 0, 3]"
  "g_activeTabId (groupAt after_open 0) = ''a''"
  "tabId after_open (Suc 0) = ''a''"
  "tabId after_open 3 = ''b''"
  by (simp_all add: scenario_defs step_defs)

subsection \<open>Updating a tab\<close>

text \<open>
  Claim C1. An Update applied by a group to a tab it has returns that tab; if the incoming
  record is active, the group's active tab id becomes the record's id; if it is not active
  and the active tab id is the record's id, the active tab id becomes the empty string;
  and an inactive record applied a second time is accepted again and leaves the active
  tab id as the first application left it.
\<close>

theorem update_active_state:
  assumes upd: "op_kind operation = TAB_UPDATE"
    and ex: "\<exists>t\<in>set (g_tabs (groupAt s this)). tabId s t = td_id (op_tabDto operation)"
  shows "(\<exists>tab. fst (group_acceptTabOperation this operation s) = Return tab)
    \<and> (td_isActive (op_tabDto operation) \<longrightarrow>
           activeTabId this (snd (group_acceptTabOperation this operation s)) = td_id (op_tabDto operation))
    \<and> (\<not> td_isActive (op_tabDto operation) \<and> activeTabId this s = td_id (op_tabDto operation) \<longrightarrow>
           activeTabId this (snd (group_acceptTabOperation this operation s)) = [])
    \<and> (\<not> td_isActive (op_tabDto operation) \<longrightarrow>
           (\<exists>tab. fst (group_acceptTabOperation this operation
                         (snd (group_acceptTabOperation this operation s))) = Return tab)
           \<and> activeTabId this (snd (group_acceptTabOperation this operation
                         (snd (group_acceptTabOperation this operation s))))
             = activeTabId this (snd (group_acceptTabOperation this operation s)))"
proof (intro conjI)
  let ?dto = "op_tabDto operation"
  from find_first_tab[OF ex] obtain tab where
    f: "find (\<lambda>t. tabId s t = td_id ?dto) (g_tabs (groupAt s this)) = Some tab"
    and tin: "tab \<in> set (g_tabs (groupAt s this))" and tid: "tabId s tab = td_id ?dto"
    by blast
  let ?r = "group_acceptTabOperation this operation s"
  have r: "?r = (Return tab, acceptDtoUpdate tab ?dto
      (if td_isActive ?dto then group_upd this (\<lambda>g. g\<lparr>g_activeTabId := td_id ?dto\<rparr>) s
       else if activeTabId this s = td_id ?dto then group_upd this (\<lambda>g. g\<lparr>g_activeTabId := []\<rparr>) s
       else s))"
    using upd f by (simp add: group_acceptTabOperation_def Let_def)
  show "\<exists>tab. fst ?r = Return tab" by (simp add: r)
  show "td_isActive ?dto \<longrightarrow> activeTabId this (snd ?r) = td_id ?dto"
    by (simp add: r activeTabId_def)
  show "\<not> td_isActive ?dto \<and> activeTabId this s = td_id ?dto \<longrightarrow> activeTabId this (snd ?r) = []"
    by (simp add: r activeTabId_def)
  show "\<not> td_isActive ?dto \<longrightarrow>
           (\<exists>tab. fst (group_acceptTabOperation this operation (snd ?r)) = Return tab)
           \<and> activeTabId this (snd (group_acceptTabOperation this operation (snd ?r)))
             = activeTabId this (snd ?r)"
  proof
    assume na: "\<not> td_isActive ?dto"
    let ?s1 = "snd ?r"
    have tabs1: "g_tabs (groupAt ?s1 this) = g_tabs (groupAt s this)"
      by (simp add: r)
    have ids1: "\<And>t. (tabId ?s1 t = td_id ?dto) = (tabId s t = td_id ?dto)"
      using tid by (simp add: r tabId_def)
    have f1: "find (\<lambda>t. tabId ?s1 t = td_id ?dto) (g_tabs (groupAt ?s1 this)) = Some tab"
      using f by (simp only: tabs1 ids1)
    have r1: "group_acceptTabOperation this operation ?s1 = (Return tab, acceptDtoUpdate tab ?dto
      (if activeTabId this ?s1 = td_id ?dto then group_upd this (\<lambda>g. g\<lparr>g_activeTabId := []\<rparr>) ?s1
       else ?s1))"
      using upd f1 na by (simp add: group_acceptTabOperation_def Let_def)
    show "(\<exists>tab. fst (group_acceptTabOperation this operation ?s1) = Return tab)
           \<and> activeTabId this (snd (group_acceptTabOperation this operation ?s1))
             = activeTabId this ?s1"
    proof (cases "activeTabId this s = td_id ?dto")
      case True
      then have "activeTabId this ?s1 = []" using na by (simp add: r activeTabId_def)
      then show ?thesis by (simp add: r1 activeTabId_def)
    next
      case False
      then have "activeTabId this ?s1 = activeTabId this s" using na by (simp add: r activeTabId_def)
      with False show ?thesis by (simp add: r1 activeTabId_def)
    qed
  qed
qed

theorem update_active_state_witness:
  "op_kind update_a_inactive = TAB_UPDATE
   \<and> (\<exists>t\<in>set (g_tabs (groupAt after_open 0)). tabId after_open t = td_id (op_tabDto update_a_inactive))
   \<and> \<not> td_isActive (op_tabDto update_a_inactive)
   \<and> activeTabId 0 after_open = td_id (op_tabDto update_a_inactive)
   \<and> activeTabId 0 (snd (group_acceptTabOperation 0 update_a_inactive after_open)) = []
   \<and> activeTabId 0 (snd (group_acceptTabOperation 0 update_a_inactive
        (snd (group_acceptTabOperation 0 update_a_inactive after_open)))) = []"
proof -
  have h1: "op_kind update_a_inactive = TAB_UPDATE" by (simp add: update_a_inactive_def)
  have h2: "\<exists>t\<in>set (g_tabs (groupAt after_open 0)). tabId after_open t = td_id (op_tabDto update_a_inactive)"
    by (simp add: after_open_group update_a_inactive_def tab_a_def)
  have h3: "\<not> td_isActive (op_tabDto update_a_inactive)" by (simp add: update_a_inactive_def)
  have h4: "activeTabId 0 after_open = td_id (op_tabDto update_a_inactive)"
    by (simp add: activeTabId_def after_open_group update_a_inactive_def tab_a_def)
  from update_active_state[OF h1 h2] h3 h4 show ?thesis using h1 h2 by simp
qed

lemma group_acceptTabOperation_frame [simp]:
  "onDidChangeTabs (snd (group_acceptTabOperation this operation s)) = onDidChangeTabs s"
  "onDidChangeTabGroups (snd (group_acceptTabOperation this operation s)) = onDidChangeTabGroups s"
  "proxy (snd (group_acceptTabOperation this operation s)) = proxy s"
  "activeGroupId (snd (group_acceptTabOperation this operation s)) = activeGroupId s"
  "extHostTabGroups (snd (group_acceptTabOperation this operation s)) = extHostTabGroups s"
  by (simp_all add: group_acceptTabOperation_def Let_def split_beta split: list.split option.split)

subsection \<open>The tabs-changed event\<close>

text \<open>
  Claim C3. An accepted tab operation of kind Close fires no tabs-changed event; an
  accepted Open or Update fires exactly one, whose payload is the public object of the
  tab that the group returned, which is then the memoized public object of that tab.
\<close>

theorem tabs_changed_event:
  assumes acc: "acceptTabOperation operation s = (Return (), s')"
  shows "(op_kind operation = TAB_CLOSE \<longrightarrow> onDidChangeTabs s' = onDidChangeTabs s)
    \<and> (op_kind operation \<noteq> TAB_CLOSE \<longrightarrow>
         (\<exists>grp tab s1.
            find (\<lambda>g. groupId s g = op_groupId operation) (extHostTabGroups s) = Some grp
            \<and> group_acceptTabOperation grp operation s = (Return tab, s1)
            \<and> onDidChangeTabs s' = onDidChangeTabs s @ [[fst (tab_apiObject tab s1)]]
            \<and> t_apiObject (tabAt s' tab) = Some (fst (tab_apiObject tab s1))))"
proof -
  obtain grp where g: "find (\<lambda>g. groupId s g = op_groupId operation) (extHostTabGroups s) = Some grp"
    using acc by (auto simp: acceptTabOperation_def split: option.splits)
  obtain tab s1 where r: "group_acceptTabOperation grp operation s = (Return tab, s1)"
    using acc g by (auto simp: acceptTabOperation_def split: prod.splits completion.splits)
  have ev1: "onDidChangeTabs s1 = onDidChangeTabs s"
  proof -
    have "onDidChangeTabs (snd (group_acceptTabOperation grp operation s)) = onDidChangeTabs s" by simp
    then show ?thesis by (simp add: r)
  qed
  show ?thesis
  proof (cases "op_kind operation = TAB_CLOSE")
    case True
    with acc g r have "s' = s1" by (simp add: acceptTabOperation_def)
    with True ev1 show ?thesis by simp
  next
    case False
    obtain obj s2 where a: "tab_apiObject tab s1 = (obj, s2)" by (cases "tab_apiObject tab s1")
    from acc g r False a have s': "s' = s2\<lparr>onDidChangeTabs := onDidChangeTabs s2 @ [[obj]]\<rparr>"
      by (simp add: acceptTabOperation_def)
    have ev2: "onDidChangeTabs s2 = onDidChangeTabs s1"
    proof -
      have "onDidChangeTabs (snd (tab_apiObject tab s1)) = onDidChangeTabs s1" by simp
      then show ?thesis by (simp add: a)
    qed
    have memo: "t_apiObject (tabAt s2 tab) = Some obj"
      using a by (auto simp: tab_apiObject_def tabAt_def Let_def split: option.splits)
    have "onDidChangeTabs s' = onDidChangeTabs s @ [[fst (tab_apiObject tab s1)]]"
      by (simp add: s' ev2 ev1 a)
    moreover have "t_apiObject (tabAt s' tab) = Some (fst (tab_apiObject tab s1))"
      using memo by (simp add: s' a tabAt_def)
    ultimately show ?thesis using False g r by blast
  qed
qed

theorem tabs_changed_event_witness:
  "acceptTabOperation close_0 after_update = (Return (), after_close)
   \<and> op_kind close_0 = TAB_CLOSE
   \<and> onDidChangeTabs after_close = onDidChangeTabs after_update
   \<and> acceptTabOperation update_a_inactive after_open = (Return (), after_update)
   \<and> op_kind update_a_inactive \<noteq> TAB_CLOSE
   \<and> onDidChangeTabs after_update = onDidChangeTabs after_open @ [[5]]
   \<and> t_apiObject (tabAt after_update (Suc 0)) = Some 5"
proof -
  have c: "acceptTabOperation close_0 after_update = (Return (), after_close)"
    unfolding after_close_def by (simp add: close_0_def after_update_def update_a_inactive_def
      after_open_def open_b_def after_snapshot_def tab_a_def tab_b_def group_1_def initial_def step_defs)
  have k: "op_kind close_0 = TAB_CLOSE" by (simp add: close_0_def)
  have u: "acceptTabOperation update_a_inactive after_open = (Return (), after_update)"
    unfolding after_update_def by (simp add: update_a_inactive_def after_open_def open_b_def
      after_snapshot_def tab_a_def tab_b_def group_1_def initial_def step_defs)
  have ku: "op_kind update_a_inactive \<noteq> TAB_CLOSE" by (simp add: update_a_inactive_def)
  have e: "onDidChangeTabs after_update = onDidChangeTabs after_open @ [[5]]"
    by (simp add: after_update_group) (simp add: scenario_defs step_defs)
  from tabs_changed_event[OF c] tabs_changed_event[OF u] k ku e after_update_group(8)
  show ?thesis using c u by simp
qed

subsection \<open>Building the mirrors of a snapshot\<close>

lemma construct_tabs_frame [simp]:
  "activeGroupId (construct_tabs this ds s) = activeGroupId s"
  "extHostTabGroups (construct_tabs this ds s) = extHostTabGroups s"
  "onDidChangeTabs (construct_tabs this ds s) = onDidChangeTabs s"
  "onDidChangeTabGroups (construct_tabs this ds s) = onDidChangeTabGroups s"
  "proxy (construct_tabs this ds s) = proxy s"
  "apiTab_heap (construct_tabs this ds s) = apiTab_heap s"
  "apiGroup_heap (construct_tabs this ds s) = apiGroup_heap s"
  by (induction ds arbitrary: s; simp add: split_beta Let_def)+

lemma construct_tabs_heap_next: "heap_next (construct_tabs this ds s) = heap_next s + length ds"
  by (induction ds arbitrary: s) (simp_all add: split_beta Let_def)

lemma construct_tabs_other_group:
  "g \<noteq> this \<Longrightarrow> group_heap (construct_tabs this ds s) g = group_heap s g"
  by (induction ds arbitrary: s) (simp_all add: split_beta Let_def)

lemma construct_tabs_this_group:
  "g_dto (groupAt (construct_tabs this ds s) this) = g_dto (groupAt s this)"
  "g_apiObject (groupAt (construct_tabs this ds s) this) = g_apiObject (groupAt s this)"
  by (induction ds arbitrary: s; simp add: split_beta Let_def)+

lemma new_ExtHostEditorTabGroup_frame [simp]:
  "fst (new_ExtHostEditorTabGroup dto s) = heap_next s"
  "activeGroupId (snd (new_ExtHostEditorTabGroup dto s)) = activeGroupId s"
  "extHostTabGroups (snd (new_ExtHostEditorTabGroup dto s)) = extHostTabGroups s"
  "onDidChangeTabs (snd (new_ExtHostEditorTabGroup dto s)) = onDidChangeTabs s"
  "onDidChangeTabGroups (snd (new_ExtHostEditorTabGroup dto s)) = onDidChangeTabGroups s"
  "proxy (snd (new_ExtHostEditorTabGroup dto s)) = proxy s"
  "apiTab_heap (snd (new_ExtHostEditorTabGroup dto s)) = apiTab_heap s"
  "apiGroup_heap (snd (new_ExtHostEditorTabGroup dto s)) = apiGroup_heap s"
  "heap_next (snd (new_ExtHostEditorTabGroup dto s)) = Suc (heap_next s) + length (gd_tabs dto)"
  by (simp_all add: new_ExtHostEditorTabGroup_def Let_def construct_tabs_heap_next)

lemma new_ExtHostEditorTabGroup_this [simp]:
  "g_dto (groupAt (snd (new_ExtHostEditorTabGroup dto s)) (heap_next s)) = dto"
  "g_apiObject (groupAt (snd (new_ExtHostEditorTabGroup dto s)) (heap_next s)) = None"
  by (simp_all add: new_ExtHostEditorTabGroup_def Let_def construct_tabs_this_group)
     (simp_all add: groupAt_def)

lemma new_ExtHostEditorTabGroup_other:
  "g \<noteq> heap_next s \<Longrightarrow> group_heap (snd (new_ExtHostEditorTabGroup dto s)) g = group_heap s g"
  by (simp add: new_ExtHostEditorTabGroup_def Let_def construct_tabs_other_group)

lemma construct_groups_frame [simp]:
  "activeGroupId (snd (construct_groups ds s)) = activeGroupId s"
  "extHostTabGroups (snd (construct_groups ds s)) = extHostTabGroups s"
  "onDidChangeTabs (snd (construct_groups ds s)) = onDidChangeTabs s"
  "onDidChangeTabGroups (snd (construct_groups ds s)) = onDidChangeTabGroups s"
  "proxy (snd (construct_groups ds s)) = proxy s"
  "apiTab_heap (snd (construct_groups ds s)) = apiTab_heap s"
  "apiGroup_heap (snd (construct_groups ds s)) = apiGroup_heap s"
  by (induction ds arbitrary: s; simp add: split_beta Let_def)+

lemma construct_groups_heap_next: "heap_next s \<le> heap_next (snd (construct_groups ds s))"
proof (induction ds arbitrary: s)
  case Nil
  show ?case by simp
next
  case (Cons d ds)
  have "heap_next s \<le> heap_next (snd (new_ExtHostEditorTabGroup d s))" by simp
  also have "\<dots> \<le> heap_next (snd (construct_groups ds (snd (new_ExtHostEditorTabGroup d s))))"
    by (rule Cons.IH)
  finally show ?case by (simp add: split_beta Let_def)
qed

lemma construct_groups_old:
  "g < heap_next s \<Longrightarrow> group_heap (snd (construct_groups ds s)) g = group_heap s g"
proof (induction ds arbitrary: s)
  case Nil
  show ?case by simp
next
  case (Cons d ds)
  let ?s1 = "snd (new_ExtHostEditorTabGroup d s)"
  have "g < heap_next ?s1" using Cons.prems by simp
  then have "group_heap (snd (construct_groups ds ?s1)) g = group_heap ?s1 g" by (rule Cons.IH)
  also have "\<dots> = group_heap s g" using Cons.prems by (simp add: new_ExtHostEditorTabGroup_other)
  finally show ?case by (simp add: split_beta Let_def)
qed

lemma construct_groups_fresh:
  "g \<in> set (fst (construct_groups ds s)) \<Longrightarrow>
     heap_next s \<le> g \<and> g < heap_next (snd (construct_groups ds s))"
proof (induction ds arbitrary: s)
  case Nil
  then show ?case by simp
next
  case (Cons d ds)
  let ?s1 = "snd (new_ExtHostEditorTabGroup d s)"
  have mono: "heap_next ?s1 \<le> heap_next (snd (construct_groups ds ?s1))"
    by (rule construct_groups_heap_next)
  from Cons.prems have "g = heap_next s \<or> g \<in> set (fst (construct_groups ds ?s1))"
    by (simp add: split_beta Let_def)
  then show ?case
  proof
    assume "g = heap_next s"
    with mono show ?thesis by (simp add: split_beta Let_def)
  next
    assume "g \<in> set (fst (construct_groups ds ?s1))"
    from Cons.IH[OF this] show ?thesis by (simp add: split_beta Let_def)
  qed
qed

lemma construct_groups_dtos:
  "map (\<lambda>g. g_dto (groupAt (snd (construct_groups ds s)) g)) (fst (construct_groups ds s)) = ds"
proof (induction ds arbitrary: s)
  case Nil
  show ?case by simp
next
  case (Cons d ds)
  let ?s1 = "snd (new_ExtHostEditorTabGroup d s)"
  have "groupAt (snd (construct_groups ds ?s1)) (heap_next s) = groupAt ?s1 (heap_next s)"
    by (simp add: groupAt_def construct_groups_old)
  then have "g_dto (groupAt (snd (construct_groups ds ?s1)) (heap_next s)) = d" by simp
  with Cons.IH[of ?s1] show ?case by (simp add: split_beta Let_def)
qed

lemma groups_apiObjects_frame [simp]:
  "activeGroupId (snd (groups_apiObjects gs s)) = activeGroupId s"
  "extHostTabGroups (snd (groups_apiObjects gs s)) = extHostTabGroups s"
  "onDidChangeTabs (snd (groups_apiObjects gs s)) = onDidChangeTabs s"
  "onDidChangeTabGroups (snd (groups_apiObjects gs s)) = onDidChangeTabGroups s"
  "proxy (snd (groups_apiObjects gs s)) = proxy s"
  "tab_heap (snd (groups_apiObjects gs s)) = tab_heap s"
  "apiTab_heap (snd (groups_apiObjects gs s)) = apiTab_heap s"
  by (induction gs arbitrary: s; simp add: split_beta Let_def)+

lemma find_None_iff_active: "(find P xs = None) = (\<forall>x\<in>set xs. \<not> P x)"
  by (induction xs) auto

text \<open>
  Claim C5. \<^verbatim>\<open>$acceptEditorTabModel\<close> throws when no incoming group record is flagged
  active; when some record is, it returns and the active group id is the group id of the
  first record flagged active.
\<close>

theorem snapshot_active_group:
  "((\<forall>g\<in>set tabGroups. \<not> gd_isActive g) \<longrightarrow>
      fst (acceptEditorTabModel tabGroups s) = Throw AssertionFailed)
   \<and> ((\<exists>g\<in>set tabGroups. gd_isActive g) \<longrightarrow>
      fst (acceptEditorTabModel tabGroups s) = Return ()
      \<and> (\<exists>g\<in>set tabGroups. gd_isActive g \<and> find gd_isActive tabGroups = Some g
            \<and> activeGroupId (snd (acceptEditorTabModel tabGroups s)) = Some (gd_groupId g)))"
proof (intro conjI impI)
  assume "\<forall>g\<in>set tabGroups. \<not> gd_isActive g"
  then have "find gd_isActive tabGroups = None" by (simp add: find_None_iff_active)
  then show "fst (acceptEditorTabModel tabGroups s) = Throw AssertionFailed"
    by (simp add: acceptEditorTabModel_def split_beta Let_def)
next
  assume "\<exists>g\<in>set tabGroups. gd_isActive g"
  from find_first_tab[OF this] obtain g where
    f: "find gd_isActive tabGroups = Some g" and a: "gd_isActive g" and m: "g \<in> set tabGroups"
    by blast
  show "fst (acceptEditorTabModel tabGroups s) = Return ()"
    using f by (simp add: acceptEditorTabModel_def split_beta Let_def)
  have "activeGroupId (snd (acceptEditorTabModel tabGroups s)) = Some (gd_groupId g)"
    using f by (simp add: acceptEditorTabModel_def split_beta Let_def)
  with f a m show "\<exists>g\<in>set tabGroups. gd_isActive g \<and> find gd_isActive tabGroups = Some g
            \<and> activeGroupId (snd (acceptEditorTabModel tabGroups s)) = Some (gd_groupId g)"
    by blast
qed

theorem snapshot_active_group_witness:
  "(\<exists>g\<in>set [group_2_inactive, group_1]. gd_isActive g)
   \<and> fst (acceptEditorTabModel [group_2_inactive, group_1] initial) = Return ()
   \<and> activeGroupId (snd (acceptEditorTabModel [group_2_inactive, group_1] initial)) = Some 1
   \<and> fst (acceptEditorTabModel [group_2_inactive] after_snapshot) = Throw AssertionFailed"
proof -
  have a: "\<exists>g\<in>set [group_2_inactive, group_1]. gd_isActive g" by (simp add: group_1_def)
  have n: "\<forall>g\<in>set [group_2_inactive]. \<not> gd_isActive g" by (simp add: group_2_inactive_def)
  from snapshot_active_group[of "[group_2_inactive, group_1]" initial]
       snapshot_active_group[of "[group_2_inactive]" after_snapshot] a n
  show ?thesis by (auto simp: group_1_def group_2_inactive_def)
qed

text \<open>
  Claim C10. When no incoming record is flagged active, the error is thrown after the list
  of group mirrors has been replaced: in the state the throw leaves, the list holds the
  mirrors built from the new records, in their order, all of them objects created by this
  call, while the active group id is the old one and no groups-changed event has fired.
\<close>

theorem snapshot_failure_not_atomic:
  assumes none: "\<forall>g\<in>set tabGroups. \<not> gd_isActive g"
  shows "fst (acceptEditorTabModel tabGroups s) = Throw AssertionFailed
    \<and> extHostTabGroups (snd (acceptEditorTabModel tabGroups s)) = fst (construct_groups tabGroups s)
    \<and> map (\<lambda>g. g_dto (groupAt (snd (acceptEditorTabModel tabGroups s)) g))
          (extHostTabGroups (snd (acceptEditorTabModel tabGroups s))) = tabGroups
    \<and> (\<forall>g\<in>set (extHostTabGroups (snd (acceptEditorTabModel tabGroups s))). heap_next s \<le> g)
    \<and> activeGroupId (snd (acceptEditorTabModel tabGroups s)) = activeGroupId s
    \<and> onDidChangeTabGroups (snd (acceptEditorTabModel tabGroups s)) = onDidChangeTabGroups s"
proof -
  from none have f: "find gd_isActive tabGroups = None" by (simp add: find_None_iff_active)
  let ?c = "construct_groups tabGroups s"
  have r: "acceptEditorTabModel tabGroups s = (Throw AssertionFailed, (snd ?c)\<lparr>extHostTabGroups := fst ?c\<rparr>)"
    using f by (simp add: acceptEditorTabModel_def split_beta Let_def)
  have d: "map (\<lambda>g. g_dto (groupAt ((snd ?c)\<lparr>extHostTabGroups := fst ?c\<rparr>) g)) (fst ?c) = tabGroups"
    using construct_groups_dtos[of tabGroups s] by (simp add: groupAt_def)
  have fr: "\<forall>g\<in>set (fst ?c). heap_next s \<le> g"
    using construct_groups_fresh[of _ tabGroups s] by blast
  show ?thesis using d fr by (simp add: r)
qed

lemma after_snapshot_group:
  "extHostTabGroups after_snapshot = [0]"
  "g_tabs (groupAt after_snapshot 0) = [Suc 0]"
  "g_activeTabId (groupAt after_snapshot 0) = ''a''"
  "tabId after_snapshot (Suc 0) = ''a''"
  "activeGroupId after_snapshot = Some 1"
  "onDidChangeTabGroups after_snapshot = [[2]]"
  "heap_next after_snapshot = 3"
  by (simp_all add: scenario_defs step_defs)

theorem snapshot_failure_not_atomic_witness:
  "(\<forall>g\<in>set [group_2_inactive]. \<not> gd_isActive g) = True
   \<and> fst (acceptEditorTabModel [group_2_inactive] after_snapshot) = Throw AssertionFailed
   \<and> extHostTabGroups (snd (acceptEditorTabModel [group_2_inactive] after_snapshot)) = [3]
   \<and> extHostTabGroups after_snapshot = [0]
   \<and> activeGroupId (snd (acceptEditorTabModel [group_2_inactive] after_snapshot)) = Some 1
   \<and> onDidChangeTabGroups (snd (acceptEditorTabModel [group_2_inactive] after_snapshot)) = [[2]]"
proof -
  have n: "\<forall>g\<in>set [group_2_inactive]. \<not> gd_isActive g" by (simp add: group_2_inactive_def)
  have c: "fst (construct_groups [group_2_inactive] after_snapshot) = [3]"
    by (simp add: after_snapshot_group split_beta Let_def)
  from snapshot_failure_not_atomic[OF n, of after_snapshot] n c
  show ?thesis by (simp add: after_snapshot_group)
qed

subsection \<open>Closing a tab at an index\<close>

text \<open>
  A Close whose index is at or beyond the end of the list throws and leaves the list and the
  active tab id as they were.
\<close>

lemma splice_beyond_end:
  "int (length xs) \<le> start \<Longrightarrow> Array_splice xs start (Suc 0) [] = ([], xs)"
  by (simp add: Array_splice_def splice_start_def Let_def)

lemma close_beyond_end:
  assumes "op_kind operation = TAB_CLOSE"
    and "int (length (g_tabs (groupAt s this))) \<le> op_index operation"
  shows "fst (group_acceptTabOperation this operation s) = Throw (TabCloseIndexDoesNotExist (op_index operation))"
    and "g_tabs (groupAt (snd (group_acceptTabOperation this operation s)) this) = g_tabs (groupAt s this)"
    and "activeTabId this (snd (group_acceptTabOperation this operation s)) = activeTabId this s"
  using assms by (simp_all add: group_acceptTabOperation_def splice_beyond_end activeTabId_def)

text \<open>
  Claim C7. The code at an index that designates no tab: the group of the snapshot holds the
  one tab \<open>a\<close>, which is active, and no tab is at index -1. The Close at index -1
  does not throw: \<^verbatim>\<open>splice\<close> counts a negative start from the end, so the
  operation returns tab \<open>a\<close>, the list is empty afterwards and the active tab id
  is cleared.
\<close>

theorem close_negative_index:
  "map (tabId after_snapshot) (g_tabs (groupAt after_snapshot 0)) = [''a'']
   \<and> activeTabId 0 after_snapshot = ''a''
   \<and> fst (group_acceptTabOperation 0 close_minus_1 after_snapshot) = Return (Suc 0)
   \<and> g_tabs (groupAt (snd (group_acceptTabOperation 0 close_minus_1 after_snapshot)) 0) = []
   \<and> activeTabId 0 (snd (group_acceptTabOperation 0 close_minus_1 after_snapshot)) = []
   \<and> fst (acceptTabOperation close_minus_1 after_snapshot) = Return ()"
  by (simp add: close_minus_1_def scenario_defs step_defs)

subsection \<open>The close of the example scenario\<close>

text \<open>
  Claim C4, as stated, fails: the Close at index 0 leaves the single tab \<open>b\<close> and
  fires no groups-changed event, but it does not fire a tabs-changed event carrying the
  public object of the removed tab \<open>a\<close>.
\<close>

theorem scenario_close_counterexample:
  "\<not> (map (tabId after_close) (g_tabs (groupAt after_close 0)) = [''b'']
      \<and> onDidChangeTabs after_close
          = onDidChangeTabs after_update @ [[the (t_apiObject (tabAt after_update (Suc 0)))]]
      \<and> onDidChangeTabGroups after_close = onDidChangeTabGroups after_update)"
  by (simp add: scenario_defs step_defs)

text \<open>
  Claim C4, amended. In the example scenario the Close at index 0 is accepted, leaves the
  group with the single tab \<open>b\<close>, and fires neither a tabs-changed nor a
  groups-changed event: the tabs-changed events of the whole scenario are the one of the
  Open, carrying the public object of \<open>b\<close>, and the one of the Update, carrying
  that of \<open>a\<close>.
\<close>

theorem scenario_close:
  "map (tabId after_update) (g_tabs (groupAt after_update 0)) = [''a'', ''b'']
   \<and> acceptTabOperation close_0 after_update = (Return (), after_close)
   \<and> map (tabId after_close) (g_tabs (groupAt after_close 0)) = [''b'']
   \<and> onDidChangeTabs after_close = onDidChangeTabs after_update
   \<and> onDidChangeTabGroups after_close = onDidChangeTabGroups after_update
   \<and> onDidChangeTabs after_close = [[4], [5]]
   \<and> Tab_label 4 after_close = td_label tab_b
   \<and> Tab_label 5 after_close = td_label tab_a"
proof -
  have c: "acceptTabOperation close_0 after_update = (Return (), after_close)"
    unfolding after_close_def by (simp add: close_0_def after_update_def update_a_inactive_def
      after_open_def open_b_def after_snapshot_def tab_a_def tab_b_def group_1_def initial_def step_defs)
  have r: "map (tabId after_update) (g_tabs (groupAt after_update 0)) = [''a'', ''b'']
   \<and> map (tabId after_close) (g_tabs (groupAt after_close 0)) = [''b'']
   \<and> onDidChangeTabs after_close = onDidChangeTabs after_update
   \<and> onDidChangeTabGroups after_close = onDidChangeTabGroups after_update
   \<and> onDidChangeTabs after_close = [[4], [5]]
   \<and> Tab_label 4 after_close = td_label tab_b
   \<and> Tab_label 5 after_close = td_label tab_a"
    by (simp add: scenario_defs step_defs Tab_label_def Tab_that_def)
  from c r show ?thesis by blast
qed

subsection \<open>The shape of the store is invariant\<close>

lemmas inv_defs = heap_inv_def tabs_ok_def groups_ok_def apis_ok_def store_ok_def

lemma heap_inv_initial: "heap_inv initial"
  by (simp add: inv_defs initial_def)

lemma wf_log_updates [simp]:
  "tab_wf (s\<lparr>onDidChangeTabs := a\<rparr>) = tab_wf s"
  "tab_wf (s\<lparr>onDidChangeTabGroups := b\<rparr>) = tab_wf s"
  "tab_wf (s\<lparr>proxy := c\<rparr>) = tab_wf s"
  "tab_wf (s\<lparr>activeGroupId := d\<rparr>) = tab_wf s"
  "tab_wf (s\<lparr>extHostTabGroups := e\<rparr>) = tab_wf s"
  "group_wf (s\<lparr>onDidChangeTabs := a\<rparr>) = group_wf s"
  "group_wf (s\<lparr>onDidChangeTabGroups := b\<rparr>) = group_wf s"
  "group_wf (s\<lparr>proxy := c\<rparr>) = group_wf s"
  "group_wf (s\<lparr>activeGroupId := d\<rparr>) = group_wf s"
  "group_wf (s\<lparr>extHostTabGroups := e\<rparr>) = group_wf s"
  by (simp_all add: fun_eq_iff tab_wf_def group_wf_def)

lemma heap_inv_log_updates [simp]:
  "heap_inv (s\<lparr>onDidChangeTabs := a\<rparr>) = heap_inv s"
  "heap_inv (s\<lparr>onDidChangeTabGroups := b\<rparr>) = heap_inv s"
  "heap_inv (s\<lparr>proxy := c\<rparr>) = heap_inv s"
  "heap_inv (s\<lparr>activeGroupId := d\<rparr>) = heap_inv s"
  by (simp_all add: inv_defs)

lemma heap_inv_set_groups:
  "heap_inv s \<Longrightarrow> \<forall>g\<in>set gs. group_heap s g \<noteq> None \<Longrightarrow> heap_inv (s\<lparr>extHostTabGroups := gs\<rparr>)"
  by (simp add: inv_defs)

lemma tabs_okD: "heap_inv s \<Longrightarrow> tab_heap s t = Some tab \<Longrightarrow> tab_wf s t tab"
  by (simp add: heap_inv_def tabs_ok_def)

lemma groups_okD: "heap_inv s \<Longrightarrow> group_heap s g = Some grp \<Longrightarrow> group_wf s g grp"
  by (simp add: heap_inv_def groups_ok_def)

lemma apiTabs_okD:
  "heap_inv s \<Longrightarrow> apiTab_heap s obj = Some x \<Longrightarrow> obj < heap_next s \<and> tab_heap s (tab_that x) \<noteq> None"
  by (simp add: heap_inv_def apis_ok_def)

lemma apiGroups_okD:
  "heap_inv s \<Longrightarrow> apiGroup_heap s obj = Some x \<Longrightarrow> obj < heap_next s \<and> group_heap s (group_that x) \<noteq> None"
  by (simp add: heap_inv_def apis_ok_def)

lemma heap_inv_store: "heap_inv s \<Longrightarrow> g \<in> set (extHostTabGroups s) \<Longrightarrow> group_heap s g \<noteq> None"
  by (simp add: inv_defs)

lemma heap_inv_tab_fresh: "heap_inv s \<Longrightarrow> tab_heap s (heap_next s) = None"
proof (cases "tab_heap s (heap_next s)")
  case None
  then show ?thesis by simp
next
  case (Some tab)
  assume "heap_inv s"
  from tabs_okD[OF this Some] show ?thesis by (simp add: tab_wf_def)
qed

lemma heap_inv_group_fresh: "heap_inv s \<Longrightarrow> group_heap s (heap_next s) = None"
proof (cases "group_heap s (heap_next s)")
  case None
  then show ?thesis by simp
next
  case (Some grp)
  assume "heap_inv s"
  from groups_okD[OF this Some] show ?thesis by (simp add: group_wf_def)
qed

lemma heap_inv_group_tabs:
  assumes inv: "heap_inv s" and grp: "group_heap s g \<noteq> None" and t: "t \<in> set (g_tabs (groupAt s g))"
  shows "tab_heap s t \<noteq> None \<and> t_activeTabIdGetter (tabAt s t) = g \<and> t_parentGroup (tabAt s t) = g"
proof -
  from grp obtain grp' where g: "group_heap s g = Some grp'" by blast
  from groups_okD[OF inv g] t g
  obtain tab where "tab_heap s t = Some tab" "t_activeTabIdGetter tab = g" "t_parentGroup tab = g"
    unfolding group_wf_def groupAt_def by auto
  then show ?thesis by (simp add: tabAt_def)
qed

lemma tab_wf_hext:
  assumes wf: "tab_wf s t tab" and ext: "hext s s'"
  shows "tab_wf s' t tab"
proof -
  have 1: "t < heap_next s'" using wf ext by (simp add: tab_wf_def hext_def)
  have 2: "group_heap s' (t_parentGroup tab) \<noteq> None" using wf ext by (simp add: tab_wf_def hext_def)
  have 3: "\<forall>obj. t_apiObject tab = Some obj \<longrightarrow>
        obj < heap_next s' \<and> apiTab_heap s' obj = Some \<lparr>tab_that = t, tab_frozen = True\<rparr>"
  proof (intro allI impI)
    fix obj assume "t_apiObject tab = Some obj"
    with wf have o: "obj < heap_next s" and a: "apiTab_heap s obj = Some \<lparr>tab_that = t, tab_frozen = True\<rparr>"
      by (simp_all add: tab_wf_def)
    from ext o have "apiTab_heap s' obj = apiTab_heap s obj" by (simp add: hext_def)
    with o a ext show "obj < heap_next s' \<and> apiTab_heap s' obj = Some \<lparr>tab_that = t, tab_frozen = True\<rparr>"
      by (simp add: hext_def)
  qed
  from 1 2 3 show ?thesis by (simp add: tab_wf_def)
qed

lemma group_wf_hext:
  assumes wf: "group_wf s g grp" and ext: "hext s s'"
  shows "group_wf s' g grp"
proof -
  have 1: "g < heap_next s'" using wf ext by (simp add: group_wf_def hext_def)
  have 2: "\<forall>obj. g_apiObject grp = Some obj \<longrightarrow>
        obj < heap_next s' \<and> apiGroup_heap s' obj = Some \<lparr>group_that = g, group_frozen = True\<rparr>"
  proof (intro allI impI)
    fix obj assume "g_apiObject grp = Some obj"
    with wf have o: "obj < heap_next s"
      and a: "apiGroup_heap s obj = Some \<lparr>group_that = g, group_frozen = True\<rparr>"
      by (simp_all add: group_wf_def)
    from ext o have "apiGroup_heap s' obj = apiGroup_heap s obj" by (simp add: hext_def)
    with o a ext show "obj < heap_next s' \<and> apiGroup_heap s' obj = Some \<lparr>group_that = g, group_frozen = True\<rparr>"
      by (simp add: hext_def)
  qed
  have 3: "\<forall>t\<in>set (g_tabs grp). \<exists>tab. tab_heap s' t = Some tab \<and>
        t_activeTabIdGetter tab = g \<and> t_parentGroup tab = g"
  proof
    fix t assume t: "t \<in> set (g_tabs grp)"
    with wf obtain tab where tab: "tab_heap s t = Some tab"
      and c: "t_activeTabIdGetter tab = g" "t_parentGroup tab = g"
      unfolding group_wf_def by blast
    from ext tab obtain tab' where "tab_heap s' t = Some tab'"
      "t_activeTabIdGetter tab' = t_activeTabIdGetter tab" "t_parentGroup tab' = t_parentGroup tab"
      unfolding hext_def by blast
    with c show "\<exists>tab. tab_heap s' t = Some tab \<and> t_activeTabIdGetter tab = g \<and> t_parentGroup tab = g"
      by simp
  qed
  from 1 2 3 show ?thesis by (simp add: group_wf_def)
qed

lemma hext_refl: "hext s s"
  by (simp add: hext_def)

lemma hext_trans:
  assumes a: "hext s s'" and b: "hext s' s''"
  shows "hext s s''"
proof -
  have 1: "heap_next s \<le> heap_next s''" using a b by (simp add: hext_def)
  have 2: "\<forall>g. group_heap s g \<noteq> None \<longrightarrow> group_heap s'' g \<noteq> None"
    using a b by (simp add: hext_def)
  have 3: "\<forall>obj. obj < heap_next s \<longrightarrow>
        apiTab_heap s'' obj = apiTab_heap s obj \<and> apiGroup_heap s'' obj = apiGroup_heap s obj"
  proof (intro allI impI)
    fix obj assume o: "obj < heap_next s"
    with a have o': "obj < heap_next s'" by (simp add: hext_def)
    from a o have "apiTab_heap s' obj = apiTab_heap s obj \<and> apiGroup_heap s' obj = apiGroup_heap s obj"
      by (simp add: hext_def)
    moreover from b o' have "apiTab_heap s'' obj = apiTab_heap s' obj \<and> apiGroup_heap s'' obj = apiGroup_heap s' obj"
      by (simp add: hext_def)
    ultimately show "apiTab_heap s'' obj = apiTab_heap s obj \<and> apiGroup_heap s'' obj = apiGroup_heap s obj"
      by simp
  qed
  have 4: "\<forall>t tab. tab_heap s t = Some tab \<longrightarrow>
        (\<exists>tab'. tab_heap s'' t = Some tab' \<and>
           t_activeTabIdGetter tab' = t_activeTabIdGetter tab \<and>
           t_parentGroup tab' = t_parentGroup tab)"
  proof (intro allI impI)
    fix t tab assume "tab_heap s t = Some tab"
    with a obtain tab' where t': "tab_heap s' t = Some tab'"
      "t_activeTabIdGetter tab' = t_activeTabIdGetter tab" "t_parentGroup tab' = t_parentGroup tab"
      unfolding hext_def by blast
    from b t'(1) obtain tab'' where "tab_heap s'' t = Some tab''"
      "t_activeTabIdGetter tab'' = t_activeTabIdGetter tab'" "t_parentGroup tab'' = t_parentGroup tab'"
      unfolding hext_def by blast
    with t' show "\<exists>tab'. tab_heap s'' t = Some tab' \<and>
           t_activeTabIdGetter tab' = t_activeTabIdGetter tab \<and>
           t_parentGroup tab' = t_parentGroup tab" by simp
  qed
  from 1 2 3 4 show ?thesis by (simp add: hext_def)
qed

lemma heap_inv_step:
  assumes inv: "heap_inv s" and ext: "hext s s'"
    and tabs: "\<And>t tab'. tab_heap s' t = Some tab' \<Longrightarrow> tab_heap s t = Some tab' \<or> tab_wf s' t tab'"
    and groups: "\<And>g grp'. group_heap s' g = Some grp' \<Longrightarrow> group_heap s g = Some grp' \<or> group_wf s' g grp'"
    and apit: "\<And>obj x. apiTab_heap s' obj = Some x \<Longrightarrow>
        apiTab_heap s obj = Some x \<or> (obj < heap_next s' \<and> tab_heap s' (tab_that x) \<noteq> None)"
    and apig: "\<And>obj x. apiGroup_heap s' obj = Some x \<Longrightarrow>
        apiGroup_heap s obj = Some x \<or> (obj < heap_next s' \<and> group_heap s' (group_that x) \<noteq> None)"
    and store: "extHostTabGroups s' = extHostTabGroups s"
  shows "heap_inv s'"
proof -
  have t1: "tabs_ok s'"
    unfolding tabs_ok_def
  proof (intro allI impI)
    fix t tab' assume a: "tab_heap s' t = Some tab'"
    from tabs[OF a] show "tab_wf s' t tab'"
    proof
      assume "tab_heap s t = Some tab'"
      from tab_wf_hext[OF tabs_okD[OF inv this] ext] show ?thesis .
    qed
  qed
  have t2: "groups_ok s'"
    unfolding groups_ok_def
  proof (intro allI impI)
    fix g grp' assume a: "group_heap s' g = Some grp'"
    from groups[OF a] show "group_wf s' g grp'"
    proof
      assume "group_heap s g = Some grp'"
      from group_wf_hext[OF groups_okD[OF inv this] ext] show ?thesis .
    qed
  qed
  have dom_t: "\<And>t. tab_heap s t \<noteq> None \<Longrightarrow> tab_heap s' t \<noteq> None"
  proof -
    fix t assume "tab_heap s t \<noteq> None"
    then obtain tab where "tab_heap s t = Some tab" by blast
    with ext obtain tab' where "tab_heap s' t = Some tab'" unfolding hext_def by blast
    then show "tab_heap s' t \<noteq> None" by simp
  qed
  have dom_g: "\<And>g. group_heap s g \<noteq> None \<Longrightarrow> group_heap s' g \<noteq> None"
    using ext by (simp add: hext_def)
  have le: "heap_next s \<le> heap_next s'" using ext by (simp add: hext_def)
  have t3a: "\<forall>obj x. apiTab_heap s' obj = Some x \<longrightarrow>
      obj < heap_next s' \<and> tab_heap s' (tab_that x) \<noteq> None"
  proof (intro allI impI)
    fix obj x assume a: "apiTab_heap s' obj = Some x"
    from apit[OF a] show "obj < heap_next s' \<and> tab_heap s' (tab_that x) \<noteq> None"
    proof
      assume "apiTab_heap s obj = Some x"
      from apiTabs_okD[OF inv this] le dom_t show ?thesis by auto
    qed
  qed
  have t3b: "\<forall>obj x. apiGroup_heap s' obj = Some x \<longrightarrow>
      obj < heap_next s' \<and> group_heap s' (group_that x) \<noteq> None"
  proof (intro allI impI)
    fix obj x assume a: "apiGroup_heap s' obj = Some x"
    from apig[OF a] show "obj < heap_next s' \<and> group_heap s' (group_that x) \<noteq> None"
    proof
      assume "apiGroup_heap s obj = Some x"
      from apiGroups_okD[OF inv this] le dom_g show ?thesis by auto
    qed
  qed
  have t3: "apis_ok s'" using t3a t3b by (simp add: apis_ok_def)
  have t4: "store_ok s'"
    unfolding store_ok_def store using heap_inv_store[OF inv] dom_g by blast
  from t1 t2 t3 t4 show ?thesis by (simp add: heap_inv_def)
qed

lemma tab_apiObject_hext: "hext s (snd (tab_apiObject t s))"
  by (auto simp: tab_apiObject_def hext_def Let_def tabAt_def split: option.split)

lemma group_apiObject_hext: "hext s (snd (group_apiObject g s))"
  by (auto simp: group_apiObject_def hext_def Let_def groupAt_def split: option.split)

lemma group_upd_hext: "hext s (group_upd g f s)"
  by (simp add: hext_def)

lemma acceptDtoUpdate_hext: "tab_heap s t \<noteq> None \<Longrightarrow> hext s (acceptDtoUpdate t dto s)"
  by (auto simp: hext_def tabAt_def)

lemma new_ExtHostEditorTab_hext:
  "tab_heap s (heap_next s) = None \<Longrightarrow> hext s (snd (new_ExtHostEditorTab dto p a s))"
  by (auto simp: hext_def)

lemma tab_apiObject_inv:
  assumes inv: "heap_inv s" and dom: "tab_heap s t \<noteq> None"
  shows "heap_inv (snd (tab_apiObject t s))"
proof (cases "t_apiObject (tabAt s t)")
  case (Some obj)
  then show ?thesis using inv by (simp add: tab_apiObject_def)
next
  case None
  from dom obtain tab where tab: "tab_heap s t = Some tab" by blast
  let ?n = "heap_next s"
  let ?s' = "snd (tab_apiObject t s)"
  have s': "?s' = s\<lparr>heap_next := Suc ?n,
      apiTab_heap := (apiTab_heap s)(?n \<mapsto> \<lparr>tab_that = t, tab_frozen = True\<rparr>),
      tab_heap := (tab_heap s)(t \<mapsto> tab\<lparr>t_apiObject := Some ?n\<rparr>)\<rparr>"
    using None tab by (simp add: tab_apiObject_def Let_def tabAt_def)
  have wf: "tab_wf s t tab" by (rule tabs_okD[OF inv tab])
  show ?thesis
  proof (rule heap_inv_step[OF inv tab_apiObject_hext])
    fix t' tab' assume "tab_heap ?s' t' = Some tab'"
    then show "tab_heap s t' = Some tab' \<or> tab_wf ?s' t' tab'"
      using wf unfolding s' by (cases "t' = t") (auto simp: tab_wf_def)
  next
    fix g grp' assume "group_heap ?s' g = Some grp'"
    then show "group_heap s g = Some grp' \<or> group_wf ?s' g grp'" by simp
  next
    fix obj x assume "apiTab_heap ?s' obj = Some x"
    then show "apiTab_heap s obj = Some x \<or> (obj < heap_next ?s' \<and> tab_heap ?s' (tab_that x) \<noteq> None)"
      unfolding s' by (cases "obj = ?n") auto
  next
    fix obj x assume "apiGroup_heap ?s' obj = Some x"
    then show "apiGroup_heap s obj = Some x \<or> (obj < heap_next ?s' \<and> group_heap ?s' (group_that x) \<noteq> None)"
      by simp
  next
    show "extHostTabGroups ?s' = extHostTabGroups s" by simp
  qed
qed

lemma group_apiObject_inv:
  assumes inv: "heap_inv s" and dom: "group_heap s g \<noteq> None"
  shows "heap_inv (snd (group_apiObject g s))"
proof (cases "g_apiObject (groupAt s g)")
  case (Some obj)
  then show ?thesis using inv by (simp add: group_apiObject_def)
next
  case None
  from dom obtain grp where grp: "group_heap s g = Some grp" by blast
  let ?n = "heap_next s"
  let ?s' = "snd (group_apiObject g s)"
  have s': "?s' = s\<lparr>heap_next := Suc ?n,
      apiGroup_heap := (apiGroup_heap s)(?n \<mapsto> \<lparr>group_that = g, group_frozen = True\<rparr>),
      group_heap := (group_heap s)(g \<mapsto> grp\<lparr>g_apiObject := Some ?n\<rparr>)\<rparr>"
    using None grp by (simp add: group_apiObject_def Let_def groupAt_def)
  have wf: "group_wf s g grp" by (rule groups_okD[OF inv grp])
  show ?thesis
  proof (rule heap_inv_step[OF inv group_apiObject_hext])
    fix t' tab' assume "tab_heap ?s' t' = Some tab'"
    then show "tab_heap s t' = Some tab' \<or> tab_wf ?s' t' tab'" by simp
  next
    fix g' grp' assume "group_heap ?s' g' = Some grp'"
    then show "group_heap s g' = Some grp' \<or> group_wf ?s' g' grp'"
      using wf unfolding s' by (cases "g' = g") (auto simp: group_wf_def)
  next
    fix obj x assume "apiTab_heap ?s' obj = Some x"
    then show "apiTab_heap s obj = Some x \<or> (obj < heap_next ?s' \<and> tab_heap ?s' (tab_that x) \<noteq> None)"
      by simp
  next
    fix obj x assume "apiGroup_heap ?s' obj = Some x"
    then show "apiGroup_heap s obj = Some x \<or> (obj < heap_next ?s' \<and> group_heap ?s' (group_that x) \<noteq> None)"
      unfolding s' by (cases "obj = ?n") auto
  next
    show "extHostTabGroups ?s' = extHostTabGroups s" by simp
  qed
qed

lemma group_upd_inv:
  assumes inv: "heap_inv s" and grp: "group_heap s g = Some grp"
    and api: "g_apiObject (f grp) = g_apiObject grp"
    and tabs: "\<forall>t\<in>set (g_tabs (f grp)). \<exists>tab. tab_heap s t = Some tab \<and>
                 t_activeTabIdGetter tab = g \<and> t_parentGroup tab = g"
  shows "heap_inv (group_upd g f s)"
proof (rule heap_inv_step[OF inv group_upd_hext])
  let ?s' = "group_upd g f s"
  have wf: "group_wf s g grp" by (rule groups_okD[OF inv grp])
  fix g' grp' assume "group_heap ?s' g' = Some grp'"
  then show "group_heap s g' = Some grp' \<or> group_wf ?s' g' grp'"
    using wf api tabs grp by (cases "g' = g") (auto simp: group_wf_def groupAt_def)
qed simp_all

lemma acceptDtoUpdate_inv:
  assumes inv: "heap_inv s" and tab: "tab_heap s t = Some tab"
  shows "heap_inv (acceptDtoUpdate t dto s)"
proof (rule heap_inv_step[OF inv acceptDtoUpdate_hext])
  show "tab_heap s t \<noteq> None" using tab by simp
next
  let ?s' = "acceptDtoUpdate t dto s"
  have wf: "tab_wf s t tab" by (rule tabs_okD[OF inv tab])
  fix t' tab' assume "tab_heap ?s' t' = Some tab'"
  then show "tab_heap s t' = Some tab' \<or> tab_wf ?s' t' tab'"
    using wf tab by (cases "t' = t") (auto simp: tab_wf_def tabAt_def)
qed simp_all

lemma new_ExtHostEditorTab_inv:
  assumes inv: "heap_inv s" and grp: "group_heap s g \<noteq> None"
  shows "heap_inv (snd (new_ExtHostEditorTab dto g g s))"
proof (rule heap_inv_step[OF inv new_ExtHostEditorTab_hext])
  show "tab_heap s (heap_next s) = None" by (rule heap_inv_tab_fresh[OF inv])
next
  let ?s' = "snd (new_ExtHostEditorTab dto g g s)"
  fix t' tab' assume "tab_heap ?s' t' = Some tab'"
  then show "tab_heap s t' = Some tab' \<or> tab_wf ?s' t' tab'"
    using grp by (cases "t' = heap_next s") (auto simp: tab_wf_def)
qed simp_all

lemma alloc_group_inv:
  assumes inv: "heap_inv s"
  shows "heap_inv (s\<lparr>heap_next := Suc (heap_next s),
           group_heap := (group_heap s)(heap_next s \<mapsto>
             \<lparr> g_apiObject = None, g_dto = dto, g_tabs = [], g_activeTabId = [] \<rparr>)\<rparr>)"
    (is "heap_inv ?s'")
proof (rule heap_inv_step[OF inv])
  show "hext s ?s'" by (simp add: hext_def)
next
  fix g' grp' assume "group_heap ?s' g' = Some grp'"
  then show "group_heap s g' = Some grp' \<or> group_wf ?s' g' grp'"
    by (cases "g' = heap_next s") (auto simp: group_wf_def)
qed simp_all

lemma hext_tab_dom: "hext s s' \<Longrightarrow> tab_heap s t \<noteq> None \<Longrightarrow> tab_heap s' t \<noteq> None"
proof -
  assume ext: "hext s s'" and "tab_heap s t \<noteq> None"
  then obtain tab where "tab_heap s t = Some tab" by blast
  with ext obtain tab' where "tab_heap s' t = Some tab'" unfolding hext_def by blast
  then show ?thesis by simp
qed

lemma hext_group_dom: "hext s s' \<Longrightarrow> group_heap s g \<noteq> None \<Longrightarrow> group_heap s' g \<noteq> None"
  by (simp add: hext_def)

lemma group_upd_inv':
  assumes inv: "heap_inv s" and dom: "group_heap s g \<noteq> None"
    and api: "g_apiObject (f (groupAt s g)) = g_apiObject (groupAt s g)"
    and tabs: "\<forall>t\<in>set (g_tabs (f (groupAt s g))). t \<in> set (g_tabs (groupAt s g)) \<or>
                 (\<exists>tab. tab_heap s t = Some tab \<and> t_activeTabIdGetter tab = g \<and> t_parentGroup tab = g)"
  shows "heap_inv (group_upd g f s)"
proof -
  from dom obtain grp where grp: "group_heap s g = Some grp" by blast
  then have ga: "groupAt s g = grp" by (simp add: groupAt_def)
  have "\<forall>t\<in>set (g_tabs (f grp)). \<exists>tab. tab_heap s t = Some tab \<and>
                 t_activeTabIdGetter tab = g \<and> t_parentGroup tab = g"
  proof
    fix t assume "t \<in> set (g_tabs (f grp))"
    with tabs ga have "t \<in> set (g_tabs grp) \<or>
       (\<exists>tab. tab_heap s t = Some tab \<and> t_activeTabIdGetter tab = g \<and> t_parentGroup tab = g)" by simp
    then show "\<exists>tab. tab_heap s t = Some tab \<and> t_activeTabIdGetter tab = g \<and> t_parentGroup tab = g"
    proof
      assume "t \<in> set (g_tabs grp)"
      with groups_okD[OF inv grp] show ?thesis unfolding group_wf_def by blast
    qed
  qed
  with group_upd_inv[OF inv grp, of f] api ga show ?thesis by simp
qed

lemma set_activeTabId_inv:
  "heap_inv s \<Longrightarrow> group_heap s g \<noteq> None \<Longrightarrow> heap_inv (group_upd g (\<lambda>grp. grp\<lparr>g_activeTabId := x\<rparr>) s)"
  by (rule group_upd_inv') simp_all

lemma construct_tabs_inv:
  "heap_inv s \<Longrightarrow> group_heap s this \<noteq> None \<Longrightarrow>
     heap_inv (construct_tabs this ds s) \<and> hext s (construct_tabs this ds s)"
proof (induction ds arbitrary: s)
  case Nil
  then show ?case by (simp add: hext_refl)
next
  case (Cons d ds)
  let ?s1 = "if td_isActive d then group_upd this (\<lambda>g. g\<lparr>g_activeTabId := td_id d\<rparr>) s else s"
  let ?s2 = "snd (new_ExtHostEditorTab d this this ?s1)"
  let ?t = "heap_next ?s1"
  let ?s3 = "group_upd this (\<lambda>g. g\<lparr>g_tabs := g_tabs g @ [?t]\<rparr>) ?s2"
  have i1: "heap_inv ?s1" using Cons.prems by (simp add: set_activeTabId_inv)
  have h1: "hext s ?s1" by (simp add: group_upd_hext hext_refl)
  have d1: "group_heap ?s1 this \<noteq> None" using Cons.prems by simp
  have i2: "heap_inv ?s2" by (rule new_ExtHostEditorTab_inv[OF i1 d1])
  have h2: "hext ?s1 ?s2" by (rule new_ExtHostEditorTab_hext[OF heap_inv_tab_fresh[OF i1]])
  have d2: "group_heap ?s2 this \<noteq> None" using d1 by simp
  have i3: "heap_inv ?s3"
  proof (rule group_upd_inv'[OF i2 d2])
    show "g_apiObject ((groupAt ?s2 this)\<lparr>g_tabs := g_tabs (groupAt ?s2 this) @ [?t]\<rparr>)
        = g_apiObject (groupAt ?s2 this)" by simp
    show "\<forall>t\<in>set (g_tabs ((groupAt ?s2 this)\<lparr>g_tabs := g_tabs (groupAt ?s2 this) @ [?t]\<rparr>)).
       t \<in> set (g_tabs (groupAt ?s2 this)) \<or>
       (\<exists>tab. tab_heap ?s2 t = Some tab \<and> t_activeTabIdGetter tab = this \<and> t_parentGroup tab = this)"
      by auto
  qed
  have h3: "hext ?s2 ?s3" by (rule group_upd_hext)
  have d3: "group_heap ?s3 this \<noteq> None" by simp
  from Cons.IH[OF i3 d3] have "heap_inv (construct_tabs this ds ?s3)" "hext ?s3 (construct_tabs this ds ?s3)"
    by simp_all
  moreover have "hext s ?s3" using h1 h2 h3 by (blast intro: hext_trans)
  ultimately have "heap_inv (construct_tabs this ds ?s3) \<and> hext s (construct_tabs this ds ?s3)"
    by (blast intro: hext_trans)
  then show ?case by (simp add: split_beta Let_def)
qed

lemma new_ExtHostEditorTabGroup_inv:
  assumes inv: "heap_inv s"
  shows "heap_inv (snd (new_ExtHostEditorTabGroup dto s))"
    and "hext s (snd (new_ExtHostEditorTabGroup dto s))"
    and "group_heap (snd (new_ExtHostEditorTabGroup dto s)) (heap_next s) \<noteq> None"
proof -
  let ?s1 = "s\<lparr>heap_next := Suc (heap_next s),
                 group_heap := (group_heap s)(heap_next s \<mapsto>
                   \<lparr> g_apiObject = None, g_dto = dto, g_tabs = [], g_activeTabId = [] \<rparr>)\<rparr>"
  have i1: "heap_inv ?s1" by (rule alloc_group_inv[OF inv])
  have fresh: "group_heap s (heap_next s) = None" by (rule heap_inv_group_fresh[OF inv])
  have h1: "hext s ?s1" using fresh by (auto simp: hext_def)
  have d1: "group_heap ?s1 (heap_next s) \<noteq> None" by simp
  have e: "snd (new_ExtHostEditorTabGroup dto s) = construct_tabs (heap_next s) (gd_tabs dto) ?s1"
    by (simp add: new_ExtHostEditorTabGroup_def Let_def)
  from construct_tabs_inv[OF i1 d1, of "gd_tabs dto"]
  have c: "heap_inv (construct_tabs (heap_next s) (gd_tabs dto) ?s1)"
    "hext ?s1 (construct_tabs (heap_next s) (gd_tabs dto) ?s1)" by simp_all
  show "heap_inv (snd (new_ExtHostEditorTabGroup dto s))" unfolding e by (rule c(1))
  show h: "hext s (snd (new_ExtHostEditorTabGroup dto s))"
    using h1 c(2) unfolding e by (rule hext_trans)
  show "group_heap (snd (new_ExtHostEditorTabGroup dto s)) (heap_next s) \<noteq> None"
    unfolding e by (rule hext_group_dom[OF c(2) d1])
qed

lemma construct_groups_inv:
  "heap_inv s \<Longrightarrow>
     heap_inv (snd (construct_groups ds s)) \<and> hext s (snd (construct_groups ds s)) \<and>
     (\<forall>g\<in>set (fst (construct_groups ds s)). group_heap (snd (construct_groups ds s)) g \<noteq> None)"
proof (induction ds arbitrary: s)
  case Nil
  then show ?case by (simp add: hext_refl)
next
  case (Cons d ds)
  let ?s1 = "snd (new_ExtHostEditorTabGroup d s)"
  let ?r = "construct_groups ds ?s1"
  note n = new_ExtHostEditorTabGroup_inv[OF Cons.prems, of d]
  from Cons.IH[OF n(1)] have ih: "heap_inv (snd ?r)" "hext ?s1 (snd ?r)"
    "\<forall>g\<in>set (fst ?r). group_heap (snd ?r) g \<noteq> None" by simp_all
  have e: "construct_groups (d # ds) s = (heap_next s # fst ?r, snd ?r)"
    by (simp add: split_beta Let_def)
  have "group_heap (snd ?r) (heap_next s) \<noteq> None" by (rule hext_group_dom[OF ih(2) n(3)])
  moreover have "hext s (snd ?r)" by (rule hext_trans[OF n(2) ih(2)])
  ultimately show ?case unfolding e using ih by simp
qed

lemma groups_apiObjects_inv:
  "heap_inv s \<Longrightarrow> \<forall>g\<in>set gs. group_heap s g \<noteq> None \<Longrightarrow>
     heap_inv (snd (groups_apiObjects gs s)) \<and> hext s (snd (groups_apiObjects gs s))"
proof (induction gs arbitrary: s)
  case Nil
  then show ?case by (simp add: hext_refl)
next
  case (Cons g gs)
  let ?s1 = "snd (group_apiObject g s)"
  have i1: "heap_inv ?s1" using Cons.prems by (simp add: group_apiObject_inv)
  have h1: "hext s ?s1" by (rule group_apiObject_hext)
  have "\<forall>g\<in>set gs. group_heap ?s1 g \<noteq> None"
    using Cons.prems(2) hext_group_dom[OF h1] by simp
  from Cons.IH[OF i1 this] h1 show ?case by (auto simp: split_beta Let_def intro: hext_trans)
qed

lemma tabs_apiObjects_inv:
  "heap_inv s \<Longrightarrow> \<forall>t\<in>set ts. tab_heap s t \<noteq> None \<Longrightarrow>
     heap_inv (snd (tabs_apiObjects ts s)) \<and> hext s (snd (tabs_apiObjects ts s))"
proof (induction ts arbitrary: s)
  case Nil
  then show ?case by (simp add: hext_refl)
next
  case (Cons t ts)
  let ?s1 = "snd (tab_apiObject t s)"
  have i1: "heap_inv ?s1" using Cons.prems by (simp add: tab_apiObject_inv)
  have h1: "hext s ?s1" by (rule tab_apiObject_hext)
  have "\<forall>t\<in>set ts. tab_heap ?s1 t \<noteq> None"
    using Cons.prems(2) hext_tab_dom[OF h1] by simp
  from Cons.IH[OF i1 this] h1 show ?case by (auto simp: split_beta Let_def intro: hext_trans)
qed

lemma set_splice_insert: "set (snd (Array_splice xs i 0 [x])) = insert x (set xs)"
proof -
  let ?k = "splice_start i (length xs)"
  have "set xs = set (take ?k xs @ drop ?k xs)" by (simp only: append_take_drop_id)
  also have "\<dots> = set (take ?k xs) \<union> set (drop ?k xs)" by (simp only: set_append)
  finally show ?thesis by (auto simp: Array_splice_def Let_def)
qed

lemma set_splice_delete: "set (snd (Array_splice xs i n [])) \<subseteq> set xs"
  by (auto simp: Array_splice_def Let_def dest: in_set_takeD in_set_dropD)

lemma set_splice_removed: "set (fst (Array_splice xs i n [])) \<subseteq> set xs"
  by (auto simp: Array_splice_def Let_def dest: in_set_takeD in_set_dropD)

lemma find_Some_set: "find P xs = Some x \<Longrightarrow> x \<in> set xs \<and> P x"
  by (induction xs) (auto split: if_splits)

lemma group_acceptTabOperation_inv:
  assumes inv: "heap_inv s" and dom: "group_heap s this \<noteq> None"
  shows "heap_inv (snd (group_acceptTabOperation this operation s))
    \<and> hext s (snd (group_acceptTabOperation this operation s))
    \<and> (\<forall>tab. fst (group_acceptTabOperation this operation s) = Return tab \<longrightarrow>
          tab_heap (snd (group_acceptTabOperation this operation s)) tab \<noteq> None)"
proof (cases "op_kind operation")
  case TAB_OPEN
  let ?dto = "op_tabDto operation"
  let ?tab = "heap_next s"
  let ?s1 = "snd (new_ExtHostEditorTab ?dto this this s)"
  let ?s2 = "group_upd this (\<lambda>g. g\<lparr>g_tabs := snd (Array_splice (g_tabs g) (op_index operation) 0 [?tab])\<rparr>) ?s1"
  let ?s3 = "if td_isActive ?dto then group_upd this (\<lambda>g. g\<lparr>g_activeTabId := tabId ?s2 ?tab\<rparr>) ?s2 else ?s2"
  have r: "group_acceptTabOperation this operation s = (Return ?tab, ?s3)"
    using TAB_OPEN by (simp add: group_acceptTabOperation_def split_beta Let_def)
  have i1: "heap_inv ?s1" by (rule new_ExtHostEditorTab_inv[OF inv dom])
  have h1: "hext s ?s1" by (rule new_ExtHostEditorTab_hext[OF heap_inv_tab_fresh[OF inv]])
  have d1: "group_heap ?s1 this \<noteq> None" using dom by simp
  have i2: "heap_inv ?s2"
  proof (rule group_upd_inv'[OF i1 d1])
    show "g_apiObject ((groupAt ?s1 this)\<lparr>g_tabs := snd (Array_splice (g_tabs (groupAt ?s1 this)) (op_index operation) 0 [?tab])\<rparr>)
        = g_apiObject (groupAt ?s1 this)" by simp
    show "\<forall>t\<in>set (g_tabs ((groupAt ?s1 this)\<lparr>g_tabs := snd (Array_splice (g_tabs (groupAt ?s1 this)) (op_index operation) 0 [?tab])\<rparr>)).
       t \<in> set (g_tabs (groupAt ?s1 this)) \<or>
       (\<exists>tab. tab_heap ?s1 t = Some tab \<and> t_activeTabIdGetter tab = this \<and> t_parentGroup tab = this)"
      by (auto simp: set_splice_insert)
  qed
  have h2: "hext ?s1 ?s2" by (rule group_upd_hext)
  have d2: "group_heap ?s2 this \<noteq> None" by simp
  have i3: "heap_inv ?s3" using i2 d2 by (simp add: set_activeTabId_inv)
  have h3: "hext ?s2 ?s3" by (simp add: group_upd_hext hext_refl)
  have h: "hext s ?s3" using h1 h2 h3 by (blast intro: hext_trans)
  have "tab_heap ?s1 ?tab \<noteq> None" by simp
  then have "tab_heap ?s3 ?tab \<noteq> None"
    using hext_tab_dom[OF hext_trans[OF h2 h3]] by blast
  with i3 h show ?thesis unfolding r by simp
next
  case TAB_CLOSE
  let ?sp = "Array_splice (g_tabs (groupAt s this)) (op_index operation) 1 []"
  let ?s1 = "group_upd this (\<lambda>g. g\<lparr>g_tabs := snd ?sp\<rparr>) s"
  have i1: "heap_inv ?s1"
  proof (rule group_upd_inv'[OF inv dom])
    show "g_apiObject ((groupAt s this)\<lparr>g_tabs := snd ?sp\<rparr>) = g_apiObject (groupAt s this)" by simp
    show "\<forall>t\<in>set (g_tabs ((groupAt s this)\<lparr>g_tabs := snd ?sp\<rparr>)).
       t \<in> set (g_tabs (groupAt s this)) \<or>
       (\<exists>tab. tab_heap s t = Some tab \<and> t_activeTabIdGetter tab = this \<and> t_parentGroup tab = this)"
      using set_splice_delete[of "g_tabs (groupAt s this)" "op_index operation" 1] by auto
  qed
  have h1: "hext s ?s1" by (rule group_upd_hext)
  have d1: "group_heap ?s1 this \<noteq> None" by simp
  show ?thesis
  proof (cases "fst ?sp")
    case Nil
    then have r: "group_acceptTabOperation this operation s
        = (Throw (TabCloseIndexDoesNotExist (op_index operation)), ?s1)"
      using TAB_CLOSE by (simp add: group_acceptTabOperation_def split_beta Let_def)
    show ?thesis unfolding r using i1 h1 by simp
  next
    case (Cons tab rest)
    let ?s2 = "if tabId ?s1 tab = activeTabId this ?s1
               then group_upd this (\<lambda>g. g\<lparr>g_activeTabId := []\<rparr>) ?s1 else ?s1"
    have r: "group_acceptTabOperation this operation s = (Return tab, ?s2)"
      using TAB_CLOSE Cons by (simp add: group_acceptTabOperation_def split_beta Let_def)
    have i2: "heap_inv ?s2" using i1 d1 by (simp add: set_activeTabId_inv)
    have h2: "hext ?s1 ?s2" by (simp add: group_upd_hext hext_refl)
    have "tab \<in> set (g_tabs (groupAt s this))"
      using set_splice_removed[of "g_tabs (groupAt s this)" "op_index operation" 1] Cons by auto
    from heap_inv_group_tabs[OF inv dom this] have "tab_heap s tab \<noteq> None" by simp
    then have "tab_heap ?s2 tab \<noteq> None" using hext_tab_dom[OF hext_trans[OF h1 h2]] by blast
    with i2 hext_trans[OF h1 h2] show ?thesis unfolding r by simp
  qed
next
  case TAB_UPDATE
  let ?dto = "op_tabDto operation"
  show ?thesis
  proof (cases "find (\<lambda>t. tabId s t = td_id ?dto) (g_tabs (groupAt s this))")
    case None
    then have r: "group_acceptTabOperation this operation s = (Throw INVALID_tab, s)"
      using TAB_UPDATE by (simp add: group_acceptTabOperation_def)
    show ?thesis unfolding r using inv by (simp add: hext_refl)
  next
    case (Some tab)
    let ?s1 = "if td_isActive ?dto then group_upd this (\<lambda>g. g\<lparr>g_activeTabId := td_id ?dto\<rparr>) s
               else if activeTabId this s = td_id ?dto \<and> \<not> td_isActive ?dto
               then group_upd this (\<lambda>g. g\<lparr>g_activeTabId := []\<rparr>) s else s"
    have r: "group_acceptTabOperation this operation s = (Return tab, acceptDtoUpdate tab ?dto ?s1)"
      using TAB_UPDATE Some by (simp add: group_acceptTabOperation_def Let_def)
    have i1: "heap_inv ?s1" using inv dom by (simp add: set_activeTabId_inv)
    have h1: "hext s ?s1" by (simp add: group_upd_hext hext_refl)
    from find_Some_set[OF Some] have "tab \<in> set (g_tabs (groupAt s this))" by simp
    from heap_inv_group_tabs[OF inv dom this] have "tab_heap s tab \<noteq> None" by simp
    then have t1: "tab_heap ?s1 tab \<noteq> None" by simp
    then obtain x where x: "tab_heap ?s1 tab = Some x" by blast
    have i2: "heap_inv (acceptDtoUpdate tab ?dto ?s1)" by (rule acceptDtoUpdate_inv[OF i1 x])
    have h2: "hext ?s1 (acceptDtoUpdate tab ?dto ?s1)" by (rule acceptDtoUpdate_hext[OF t1])
    have "tab_heap (acceptDtoUpdate tab ?dto ?s1) tab \<noteq> None" by simp
    with i2 hext_trans[OF h1 h2] show ?thesis unfolding r by simp
  qed
qed

lemma acceptTabOperation_inv:
  assumes inv: "heap_inv s"
  shows "heap_inv (snd (acceptTabOperation operation s))"
proof (cases "find (\<lambda>g. groupId s g = op_groupId operation) (extHostTabGroups s)")
  case None
  then show ?thesis using inv by (simp add: acceptTabOperation_def)
next
  case (Some grp)
  from find_Some_set[OF Some] have "grp \<in> set (extHostTabGroups s)" by simp
  then have dom: "group_heap s grp \<noteq> None" by (rule heap_inv_store[OF inv])
  note g = group_acceptTabOperation_inv[OF inv dom, of operation]
  obtain c s1 where r: "group_acceptTabOperation grp operation s = (c, s1)"
    by (cases "group_acceptTabOperation grp operation s")
  from g r have i1: "heap_inv s1" and ret: "\<And>tab. c = Return tab \<Longrightarrow> tab_heap s1 tab \<noteq> None"
    by simp_all
  show ?thesis
  proof (cases c)
    case (Throw e)
    then show ?thesis using Some r i1 by (simp add: acceptTabOperation_def)
  next
    case (Return tab)
    from tab_apiObject_inv[OF i1 ret[OF Return]]
    show ?thesis using Some r i1 Return by (simp add: acceptTabOperation_def split_beta Let_def)
  qed
qed

lemma acceptTabGroupUpdate_inv:
  assumes inv: "heap_inv s"
  shows "heap_inv (snd (acceptTabGroupUpdate groupDto s))"
proof (cases "find (\<lambda>g. groupId s g = gd_groupId groupDto) (extHostTabGroups s)")
  case None
  then show ?thesis using inv by (simp add: acceptTabGroupUpdate_def)
next
  case (Some grp)
  from find_Some_set[OF Some] have "grp \<in> set (extHostTabGroups s)" by simp
  then have dom: "group_heap s grp \<noteq> None" by (rule heap_inv_store[OF inv])
  let ?s1 = "acceptGroupDtoUpdate grp groupDto s"
  let ?s2 = "if gd_isActive groupDto then ?s1\<lparr>activeGroupId := Some (gd_groupId groupDto)\<rparr> else ?s1"
  have i1: "heap_inv ?s1" unfolding acceptGroupDtoUpdate_def
    by (rule group_upd_inv'[OF inv dom]) simp_all
  have d1: "group_heap ?s1 grp \<noteq> None" by (simp add: acceptGroupDtoUpdate_def)
  have i2: "heap_inv ?s2" using i1 by simp
  have d2: "group_heap ?s2 grp \<noteq> None" using d1 by simp
  from group_apiObject_inv[OF i2 d2]
  show ?thesis using Some by (simp add: acceptTabGroupUpdate_def split_beta Let_def)
qed

lemma acceptEditorTabModel_inv:
  assumes inv: "heap_inv s"
  shows "heap_inv (snd (acceptEditorTabModel tabGroups s))"
proof -
  let ?c = "construct_groups tabGroups s"
  let ?s2 = "(snd ?c)\<lparr>extHostTabGroups := fst ?c\<rparr>"
  note c = construct_groups_inv[OF inv, of tabGroups]
  have i2: "heap_inv ?s2" using c by (simp add: heap_inv_set_groups)
  show ?thesis
  proof (cases "find (\<lambda>g. gd_isActive g) tabGroups")
    case None
    then show ?thesis using i2 by (simp add: acceptEditorTabModel_def split_beta Let_def)
  next
    case (Some g)
    let ?s3 = "if activeGroupId ?s2 \<noteq> Some (gd_groupId g)
               then ?s2\<lparr>activeGroupId := Some (gd_groupId g)\<rparr> else ?s2"
    have i3: "heap_inv ?s3" using i2 by simp
    have d3: "\<forall>g\<in>set (extHostTabGroups ?s3). group_heap ?s3 g \<noteq> None" using c by simp
    from groups_apiObjects_inv[OF i3 d3]
    show ?thesis using Some by (simp add: acceptEditorTabModel_def split_beta Let_def)
  qed
qed

lemma findTabFromApi_tabs_inv:
  "heap_inv s \<Longrightarrow> \<forall>t\<in>set ts. tab_heap s t \<noteq> None \<Longrightarrow>
     heap_inv (snd (findTabFromApi_tabs a ts s)) \<and> hext s (snd (findTabFromApi_tabs a ts s))"
proof (induction ts arbitrary: s)
  case Nil
  then show ?case by (simp add: hext_refl)
next
  case (Cons t ts)
  let ?s1 = "snd (tab_apiObject t s)"
  have i1: "heap_inv ?s1" using Cons.prems by (simp add: tab_apiObject_inv)
  have h1: "hext s ?s1" by (rule tab_apiObject_hext)
  have "\<forall>t\<in>set ts. tab_heap ?s1 t \<noteq> None"
    using Cons.prems(2) hext_tab_dom[OF h1] by simp
  from Cons.IH[OF i1 this] i1 h1 show ?case by (auto simp: split_beta Let_def intro: hext_trans)
qed

lemma findTabFromApi_groups_inv:
  "heap_inv s \<Longrightarrow> \<forall>g\<in>set gs. group_heap s g \<noteq> None \<Longrightarrow>
     heap_inv (snd (findTabFromApi_groups a gs s)) \<and> hext s (snd (findTabFromApi_groups a gs s))"
proof (induction gs arbitrary: s)
  case Nil
  then show ?case by (simp add: hext_refl)
next
  case (Cons g gs)
  let ?r = "findTabFromApi_tabs a (g_tabs (groupAt s g)) s"
  have dom: "group_heap s g \<noteq> None" using Cons.prems(2) by simp
  have "\<forall>t\<in>set (g_tabs (groupAt s g)). tab_heap s t \<noteq> None"
    using heap_inv_group_tabs[OF Cons.prems(1) dom] by blast
  from findTabFromApi_tabs_inv[OF Cons.prems(1) this, of a]
  have i1: "heap_inv (snd ?r)" and h1: "hext s (snd ?r)" by simp_all
  have "\<forall>g\<in>set gs. group_heap (snd ?r) g \<noteq> None"
    using Cons.prems(2) hext_group_dom[OF h1] by simp
  from Cons.IH[OF i1 this] have ih: "heap_inv (snd (findTabFromApi_groups a gs (snd ?r)))"
    "hext (snd ?r) (snd (findTabFromApi_groups a gs (snd ?r)))" by simp_all
  show ?case
  proof (cases "fst ?r")
    case None
    then have "findTabFromApi_groups a (g # gs) s = findTabFromApi_groups a gs (snd ?r)"
      by (simp add: split_beta)
    with ih h1 show ?thesis by (auto intro: hext_trans)
  next
    case (Some tab)
    then have "findTabFromApi_groups a (g # gs) s = (Some tab, snd ?r)"
      by (simp add: split_beta)
    with i1 h1 show ?thesis by simp
  qed
qed

lemma findExtHostTabFromApi_inv:
  assumes inv: "heap_inv s"
  shows "heap_inv (snd (findExtHostTabFromApi a s))" and "hext s (snd (findExtHostTabFromApi a s))"
  using findTabFromApi_groups_inv[OF inv, of "extHostTabGroups s" a] heap_inv_store[OF inv]
  by (simp_all add: findExtHostTabFromApi_def)

lemma findGroupFromApi_groups_inv:
  "heap_inv s \<Longrightarrow> \<forall>g\<in>set gs. group_heap s g \<noteq> None \<Longrightarrow>
     heap_inv (snd (findGroupFromApi_groups a gs s)) \<and> hext s (snd (findGroupFromApi_groups a gs s))"
proof (induction gs arbitrary: s)
  case Nil
  then show ?case by (simp add: hext_refl)
next
  case (Cons g gs)
  let ?s1 = "snd (group_apiObject g s)"
  have i1: "heap_inv ?s1" using Cons.prems by (simp add: group_apiObject_inv)
  have h1: "hext s ?s1" by (rule group_apiObject_hext)
  have "\<forall>g\<in>set gs. group_heap ?s1 g \<noteq> None"
    using Cons.prems(2) hext_group_dom[OF h1] by simp
  from Cons.IH[OF i1 this] i1 h1 show ?case by (auto simp: split_beta Let_def intro: hext_trans)
qed

lemma findExtHostTabGroupFromApi_inv:
  assumes inv: "heap_inv s"
  shows "heap_inv (snd (findExtHostTabGroupFromApi a s))"
  using findGroupFromApi_groups_inv[OF inv, of "extHostTabGroups s" a] heap_inv_store[OF inv]
  by (simp add: findExtHostTabGroupFromApi_def)

lemma closeTabs_loop_inv:
  "heap_inv s \<Longrightarrow> heap_inv (snd (closeTabs_loop tabs ids s))"
proof (induction tabs arbitrary: ids s)
  case Nil
  then show ?case by simp
next
  case (Cons tab rest)
  let ?r = "findExtHostTabFromApi tab s"
  have i1: "heap_inv (snd ?r)" by (rule findExtHostTabFromApi_inv[OF Cons.prems])
  show ?case
  proof (cases "fst ?r")
    case None
    then show ?thesis using i1 by (simp add: split_beta)
  next
    case (Some t)
    then show ?thesis using Cons.IH[OF i1] by (simp add: split_beta)
  qed
qed

lemma closeGroups_loop_inv:
  "heap_inv s \<Longrightarrow> heap_inv (snd (closeGroups_loop groups ids s))"
proof (induction groups arbitrary: ids s)
  case Nil
  then show ?case by simp
next
  case (Cons g rest)
  let ?r = "findExtHostTabGroupFromApi g s"
  have i1: "heap_inv (snd ?r)" by (rule findExtHostTabGroupFromApi_inv[OF Cons.prems])
  show ?case
  proof (cases "fst ?r")
    case None
    then show ?thesis using i1 by (simp add: split_beta)
  next
    case (Some t)
    then show ?thesis using Cons.IH[OF i1] by (simp add: split_beta)
  qed
qed

lemma closeTabs_inv: "heap_inv s \<Longrightarrow> heap_inv (snd (closeTabs reply tabs pf s))"
  using closeTabs_loop_inv[of s tabs "[]"]
  by (cases "fst (closeTabs_loop tabs [] s)") (simp_all add: closeTabs_def split_beta)

lemma closeGroups_inv: "heap_inv s \<Longrightarrow> heap_inv (snd (closeGroups reply groups pf s))"
  using closeGroups_loop_inv[of s groups "[]"]
  by (cases "fst (closeGroups_loop groups [] s)") (simp_all add: closeGroups_def split_beta)

lemma move_inv: "heap_inv s \<Longrightarrow> heap_inv (snd (move vc tab viewColumn index pf s))"
  using findExtHostTabFromApi_inv(1)[of s tab]
  by (cases "fst (findExtHostTabFromApi tab s)") (simp_all add: move_def split_beta)

lemma TabGroups_groups_inv: "heap_inv s \<Longrightarrow> heap_inv (snd (TabGroups_groups s))"
  using groups_apiObjects_inv[of s "extHostTabGroups s"] heap_inv_store[of s]
  by (simp add: TabGroups_groups_def)

lemma TabGroups_activeTabGroup_inv:
  assumes inv: "heap_inv s"
  shows "heap_inv (snd (TabGroups_activeTabGroup s))"
proof (cases "find (\<lambda>candidate. Some (groupId s candidate) = activeGroupId s) (extHostTabGroups s)")
  case None
  then show ?thesis using inv by (simp add: TabGroups_activeTabGroup_def)
next
  case (Some g)
  from find_Some_set[OF Some] have "g \<in> set (extHostTabGroups s)" by simp
  from group_apiObject_inv[OF inv heap_inv_store[OF inv this]]
  show ?thesis using Some by (simp add: TabGroups_activeTabGroup_def split_beta)
qed

lemma Group_that_dom:
  assumes inv: "heap_inv s" and obj: "apiGroup_heap s obj \<noteq> None"
  shows "group_heap s (Group_that s obj) \<noteq> None"
proof -
  from obj obtain x where x: "apiGroup_heap s obj = Some x" by blast
  from apiGroups_okD[OF inv x] x show ?thesis by (simp add: Group_that_def)
qed

lemma Group_tabs_inv:
  assumes inv: "heap_inv s" and obj: "apiGroup_heap s obj \<noteq> None"
  shows "heap_inv (snd (Group_tabs obj s))"
proof -
  have "\<forall>t\<in>set (g_tabs (groupAt s (Group_that s obj))). tab_heap s t \<noteq> None"
    using heap_inv_group_tabs[OF inv Group_that_dom[OF inv obj]] by blast
  from tabs_apiObjects_inv[OF inv this] show ?thesis by (simp add: Group_tabs_def)
qed

lemma Group_activeTab_inv:
  assumes inv: "heap_inv s" and obj: "apiGroup_heap s obj \<noteq> None"
  shows "heap_inv (snd (Group_activeTab obj s))"
proof (cases "find (\<lambda>tab. tabId s tab = g_activeTabId (groupAt s (Group_that s obj)))
                (g_tabs (groupAt s (Group_that s obj)))")
  case None
  then show ?thesis using inv by (simp add: Group_activeTab_def)
next
  case (Some tab)
  from find_Some_set[OF Some] have "tab \<in> set (g_tabs (groupAt s (Group_that s obj)))" by simp
  from heap_inv_group_tabs[OF inv Group_that_dom[OF inv obj] this] have "tab_heap s tab \<noteq> None" by simp
  from tab_apiObject_inv[OF inv this]
  show ?thesis using Some by (simp add: Group_activeTab_def split_beta)
qed

lemma Tab_group_inv:
  assumes inv: "heap_inv s" and obj: "apiTab_heap s obj \<noteq> None"
  shows "heap_inv (snd (Tab_group obj s))"
proof -
  from obj obtain x where x: "apiTab_heap s obj = Some x" by blast
  from apiTabs_okD[OF inv x] obtain tab where tab: "tab_heap s (tab_that x) = Some tab" by blast
  from tabs_okD[OF inv tab] have "group_heap s (t_parentGroup tab) \<noteq> None" by (simp add: tab_wf_def)
  from group_apiObject_inv[OF inv this]
  show ?thesis using x tab by (simp add: Tab_group_def Tab_that_def tabAt_def)
qed

lemma isTabGroup_inv: "heap_inv s \<Longrightarrow> heap_inv (snd (isTabGroup other_has_tabs obj s))"
  by (simp add: isTabGroup_def Group_tabs_inv)

lemma TabGroups_close_inv:
  assumes inv: "heap_inv s"
  shows "heap_inv (snd (TabGroups_close other_has_tabs reply xs pf s))"
proof (cases xs)
  case Nil
  then show ?thesis using inv by (simp add: TabGroups_close_def)
next
  case (Cons first rest)
  have i1: "heap_inv (snd (isTabGroup other_has_tabs first s))" by (rule isTabGroup_inv[OF inv])
  show ?thesis
    using closeGroups_inv[OF i1] closeTabs_inv[OF i1] Cons
    by (simp add: TabGroups_close_def split_beta)
qed

lemma reachable_heap_inv: "reachable s \<Longrightarrow> heap_inv s"
proof (induction rule: reachable.induct)
  case r_initial
  show ?case by (rule heap_inv_initial)
next
  case (r_model s tabGroups)
  then show ?case by (simp add: acceptEditorTabModel_inv)
next
  case (r_groupUpdate s groupDto)
  then show ?case by (simp add: acceptTabGroupUpdate_inv)
next
  case (r_tabOperation s operation)
  then show ?case by (simp add: acceptTabOperation_inv)
next
  case (r_groups s)
  then show ?case by (simp add: TabGroups_groups_inv)
next
  case (r_activeTabGroup s)
  then show ?case by (simp add: TabGroups_activeTabGroup_inv)
next
  case (r_tabs s obj)
  then show ?case by (simp add: Group_tabs_inv)
next
  case (r_activeTab s obj)
  then show ?case by (simp add: Group_activeTab_inv)
next
  case (r_tabGroup s obj)
  then show ?case by (simp add: Tab_group_inv)
next
  case (r_closeTabs s reply tabs preserveFocus)
  then show ?case by (simp add: closeTabs_inv)
next
  case (r_closeGroups s reply groups preserveFocus)
  then show ?case by (simp add: closeGroups_inv)
next
  case (r_close s other_has_tabs reply tabsOrTabGroups preserveFocus)
  then show ?case by (simp add: TabGroups_close_inv)
next
  case (r_move s ViewColumn_from tab viewColumn index preserveFocus)
  then show ?case by (simp add: move_inv)
qed

text \<open>
  In a reachable state the mirrors that a failed snapshot leaves in the list are none of
  the mirrors that were in it before.
\<close>

lemma snapshot_failure_discards:
  assumes r: "reachable s" and none: "\<forall>g\<in>set tabGroups. \<not> gd_isActive g"
  shows "set (extHostTabGroups (snd (acceptEditorTabModel tabGroups s))) \<inter> set (extHostTabGroups s) = {}"
proof -
  have inv: "heap_inv s" by (rule reachable_heap_inv[OF r])
  from none have f: "find gd_isActive tabGroups = None" by (simp add: find_None_iff_active)
  have e: "extHostTabGroups (snd (acceptEditorTabModel tabGroups s)) = fst (construct_groups tabGroups s)"
    using f by (simp add: acceptEditorTabModel_def split_beta Let_def)
  have new: "\<And>g. g \<in> set (fst (construct_groups tabGroups s)) \<Longrightarrow> heap_next s \<le> g"
    using construct_groups_fresh[of _ tabGroups s] by blast
  have old: "\<And>g. g \<in> set (extHostTabGroups s) \<Longrightarrow> g < heap_next s"
  proof -
    fix g assume "g \<in> set (extHostTabGroups s)"
    from heap_inv_store[OF inv this] obtain grp where "group_heap s g = Some grp" by blast
    from groups_okD[OF inv this] show "g < heap_next s" by (simp add: group_wf_def)
  qed
  show ?thesis unfolding e using new old by fastforce
qed

subsection \<open>At most one active tab and one active group\<close>

lemma distinct_filter_le_1:
  "distinct (map f xs) \<Longrightarrow> length (filter (\<lambda>x. f x = c) xs) \<le> 1"
proof (induction xs)
  case Nil
  show ?case by simp
next
  case (Cons x xs)
  show ?case
  proof (cases "f x = c")
    case True
    with Cons.prems have "c \<notin> f ` set xs" by simp
    then have "\<forall>y\<in>set xs. f y \<noteq> c" by blast
    then have "filter (\<lambda>x. f x = c) xs = []" by (simp add: filter_empty_conv)
    with True show ?thesis by simp
  next
    case False
    with Cons show ?thesis by simp
  qed
qed

lemma group_apiObject_memo:
  "g_apiObject (groupAt (snd (group_apiObject g s)) g) = Some (fst (group_apiObject g s))"
  by (simp add: group_apiObject_def groupAt_def Let_def split: option.split)

lemma group_apiObject_keeps:
  "g_apiObject (groupAt s g') = Some obj \<Longrightarrow>
     g_apiObject (groupAt (snd (group_apiObject g s)) g') = Some obj"
  by (auto simp: group_apiObject_def groupAt_def Let_def split: option.split)

lemma group_apiObject_group_fields [simp]:
  "g_dto (groupAt (snd (group_apiObject g s)) g') = g_dto (groupAt s g')"
  "g_tabs (groupAt (snd (group_apiObject g s)) g') = g_tabs (groupAt s g')"
  "g_activeTabId (groupAt (snd (group_apiObject g s)) g') = g_activeTabId (groupAt s g')"
  by (simp_all add: group_apiObject_def groupAt_def Let_def split: option.split)

lemma groups_apiObjects_keeps:
  "g_apiObject (groupAt s g') = Some obj \<Longrightarrow>
     g_apiObject (groupAt (snd (groups_apiObjects gs s)) g') = Some obj"
  by (induction gs arbitrary: s) (simp_all add: split_beta Let_def group_apiObject_keeps)

lemma groups_apiObjects_group_fields [simp]:
  "g_dto (groupAt (snd (groups_apiObjects gs s)) g') = g_dto (groupAt s g')"
  "g_tabs (groupAt (snd (groups_apiObjects gs s)) g') = g_tabs (groupAt s g')"
  "g_activeTabId (groupAt (snd (groups_apiObjects gs s)) g') = g_activeTabId (groupAt s g')"
  by (induction gs arbitrary: s; simp add: split_beta Let_def)+

lemma groups_apiObjects_result:
  "fst (groups_apiObjects gs s)
     = map (\<lambda>g. the (g_apiObject (groupAt (snd (groups_apiObjects gs s)) g))) gs
   \<and> (\<forall>g\<in>set gs. g_apiObject (groupAt (snd (groups_apiObjects gs s)) g) \<noteq> None)"
proof (induction gs arbitrary: s)
  case Nil
  show ?case by simp
next
  case (Cons g gs)
  let ?s1 = "snd (group_apiObject g s)"
  let ?s2 = "snd (groups_apiObjects gs ?s1)"
  have k: "g_apiObject (groupAt ?s2 g) = Some (fst (group_apiObject g s))"
    by (rule groups_apiObjects_keeps[OF group_apiObject_memo])
  from Cons.IH[of ?s1] k show ?case by (simp add: split_beta Let_def)
qed

lemma tab_apiObject_memo:
  "t_apiObject (tabAt (snd (tab_apiObject t s)) t) = Some (fst (tab_apiObject t s))"
  by (simp add: tab_apiObject_def tabAt_def Let_def split: option.split)

lemma tab_apiObject_keeps:
  "t_apiObject (tabAt s t') = Some obj \<Longrightarrow>
     t_apiObject (tabAt (snd (tab_apiObject t s)) t') = Some obj"
  by (auto simp: tab_apiObject_def tabAt_def Let_def split: option.split)

lemma tab_apiObject_tab_fields [simp]:
  "t_dto (tabAt (snd (tab_apiObject t s)) t') = t_dto (tabAt s t')"
  "t_input (tabAt (snd (tab_apiObject t s)) t') = t_input (tabAt s t')"
  "t_activeTabIdGetter (tabAt (snd (tab_apiObject t s)) t') = t_activeTabIdGetter (tabAt s t')"
  "t_parentGroup (tabAt (snd (tab_apiObject t s)) t') = t_parentGroup (tabAt s t')"
  by (simp_all add: tab_apiObject_def tabAt_def Let_def split: option.split)

lemma tabs_apiObjects_keeps:
  "t_apiObject (tabAt s t') = Some obj \<Longrightarrow>
     t_apiObject (tabAt (snd (tabs_apiObjects ts s)) t') = Some obj"
  by (induction ts arbitrary: s) (simp_all add: split_beta Let_def tab_apiObject_keeps)

lemma tabs_apiObjects_tab_fields [simp]:
  "t_dto (tabAt (snd (tabs_apiObjects ts s)) t') = t_dto (tabAt s t')"
  "t_input (tabAt (snd (tabs_apiObjects ts s)) t') = t_input (tabAt s t')"
  "t_activeTabIdGetter (tabAt (snd (tabs_apiObjects ts s)) t') = t_activeTabIdGetter (tabAt s t')"
  "t_parentGroup (tabAt (snd (tabs_apiObjects ts s)) t') = t_parentGroup (tabAt s t')"
  by (induction ts arbitrary: s; simp add: split_beta Let_def)+

lemma tabs_apiObjects_frame [simp]:
  "group_heap (snd (tabs_apiObjects ts s)) = group_heap s"
  "activeGroupId (snd (tabs_apiObjects ts s)) = activeGroupId s"
  "extHostTabGroups (snd (tabs_apiObjects ts s)) = extHostTabGroups s"
  by (induction ts arbitrary: s; simp add: split_beta Let_def)+

lemma tabs_apiObjects_result:
  "fst (tabs_apiObjects ts s)
     = map (\<lambda>t. the (t_apiObject (tabAt (snd (tabs_apiObjects ts s)) t))) ts
   \<and> (\<forall>t\<in>set ts. t_apiObject (tabAt (snd (tabs_apiObjects ts s)) t) \<noteq> None)"
proof (induction ts arbitrary: s)
  case Nil
  show ?case by simp
next
  case (Cons t ts)
  let ?s1 = "snd (tab_apiObject t s)"
  let ?s2 = "snd (tabs_apiObjects ts ?s1)"
  have k: "t_apiObject (tabAt ?s2 t) = Some (fst (tab_apiObject t s))"
    by (rule tabs_apiObjects_keeps[OF tab_apiObject_memo])
  from Cons.IH[of ?s1] k show ?case by (simp add: split_beta Let_def)
qed

lemma Group_that_of_apiObject:
  assumes inv: "heap_inv s" and dom: "group_heap s g \<noteq> None"
    and api: "g_apiObject (groupAt s g) = Some obj"
  shows "Group_that s obj = g"
proof -
  from dom obtain grp where grp: "group_heap s g = Some grp" by blast
  from groups_okD[OF inv grp] api grp
  have "apiGroup_heap s obj = Some \<lparr>group_that = g, group_frozen = True\<rparr>"
    by (simp add: group_wf_def groupAt_def)
  then show ?thesis by (simp add: Group_that_def)
qed

lemma Tab_that_of_apiObject:
  assumes inv: "heap_inv s" and dom: "tab_heap s t \<noteq> None"
    and api: "t_apiObject (tabAt s t) = Some obj"
  shows "Tab_that s obj = tabAt s t"
proof -
  from dom obtain tab where tab: "tab_heap s t = Some tab" by blast
  from tabs_okD[OF inv tab] api tab
  have "apiTab_heap s obj = Some \<lparr>tab_that = t, tab_frozen = True\<rparr>"
    by (simp add: tab_wf_def tabAt_def)
  then show ?thesis by (simp add: Tab_that_def)
qed

lemma groups_isActive_count:
  assumes inv: "heap_inv s"
    and dg: "distinct (map (groupId s) (extHostTabGroups s))"
  shows "length (filter (\<lambda>grp. Group_isActive grp (snd (TabGroups_groups s)))
                   (fst (TabGroups_groups s))) \<le> 1"
proof -
  let ?gs = "extHostTabGroups s"
  let ?s1 = "snd (groups_apiObjects ?gs s)"
  let ?f = "\<lambda>g. the (g_apiObject (groupAt ?s1 g))"
  have dom: "\<forall>g\<in>set ?gs. group_heap s g \<noteq> None" using heap_inv_store[OF inv] by blast
  from groups_apiObjects_inv[OF inv dom] have inv1: "heap_inv ?s1" and ext: "hext s ?s1" by simp_all
  note res = groups_apiObjects_result[of ?gs s]
  have act: "\<And>g. g \<in> set ?gs \<Longrightarrow>
      Group_isActive (?f g) ?s1 = (Some (groupId s g) = activeGroupId s)"
  proof -
    fix g assume g: "g \<in> set ?gs"
    from res g obtain obj where o: "g_apiObject (groupAt ?s1 g) = Some obj" by auto
    have d1: "group_heap ?s1 g \<noteq> None" using hext_group_dom[OF ext] dom g by blast
    have "Group_that ?s1 obj = g" by (rule Group_that_of_apiObject[OF inv1 d1 o])
    then show "Group_isActive (?f g) ?s1 = (Some (groupId s g) = activeGroupId s)"
      by (simp add: Group_isActive_def o groupId_def)
  qed
  have "filter (\<lambda>grp. Group_isActive grp ?s1) (map ?f ?gs)
      = map ?f (filter (\<lambda>g. Group_isActive (?f g) ?s1) ?gs)"
    by (simp add: filter_map comp_def)
  also have "filter (\<lambda>g. Group_isActive (?f g) ?s1) ?gs
      = filter (\<lambda>g. Some (groupId s g) = activeGroupId s) ?gs"
    by (rule filter_cong) (simp_all add: act)
  finally have "length (filter (\<lambda>grp. Group_isActive grp ?s1) (map ?f ?gs))
      = length (filter (\<lambda>g. Some (groupId s g) = activeGroupId s) ?gs)" by simp
  moreover have "distinct (map (\<lambda>g. Some (groupId s g)) ?gs)"
    using dg by (simp add: distinct_map inj_on_def)
  then have "length (filter (\<lambda>g. Some (groupId s g) = activeGroupId s) ?gs) \<le> 1"
    by (rule distinct_filter_le_1)
  ultimately show ?thesis using res by (simp add: TabGroups_groups_def)
qed

lemma tabs_isActive_count:
  assumes inv: "heap_inv s" and dom: "group_heap s g \<noteq> None"
    and api: "g_apiObject (groupAt s g) = Some grp"
    and dt: "distinct (map (tabId s) (g_tabs (groupAt s g)))"
  shows "length (filter (\<lambda>tab. Tab_isActive tab (snd (Group_tabs grp s))) (fst (Group_tabs grp s))) \<le> 1"
proof -
  have that: "Group_that s grp = g" by (rule Group_that_of_apiObject[OF inv dom api])
  let ?ts = "g_tabs (groupAt s g)"
  let ?s2 = "snd (tabs_apiObjects ?ts s)"
  let ?f = "\<lambda>t. the (t_apiObject (tabAt ?s2 t))"
  have gt: "Group_tabs grp s = tabs_apiObjects ?ts s" by (simp add: Group_tabs_def that)
  have tdom: "\<forall>t\<in>set ?ts. tab_heap s t \<noteq> None" using heap_inv_group_tabs[OF inv dom] by blast
  from tabs_apiObjects_inv[OF inv tdom] have inv2: "heap_inv ?s2" and ext: "hext s ?s2" by simp_all
  note res = tabs_apiObjects_result[of ?ts s]
  have act: "\<And>t. t \<in> set ?ts \<Longrightarrow>
      Tab_isActive (?f t) ?s2 = (tabId s t = g_activeTabId (groupAt s g))"
  proof -
    fix t assume t: "t \<in> set ?ts"
    from res t obtain obj where o: "t_apiObject (tabAt ?s2 t) = Some obj" by auto
    have d2: "tab_heap ?s2 t \<noteq> None" using hext_tab_dom[OF ext] tdom t by blast
    have tt: "Tab_that ?s2 obj = tabAt ?s2 t" by (rule Tab_that_of_apiObject[OF inv2 d2 o])
    have getter: "t_activeTabIdGetter (tabAt s t) = g" using heap_inv_group_tabs[OF inv dom t] by simp
    have "groupAt ?s2 g = groupAt s g" by (simp add: groupAt_def)
    then show "Tab_isActive (?f t) ?s2 = (tabId s t = g_activeTabId (groupAt s g))"
      by (simp add: Tab_isActive_def o tt tabId_def activeTabId_def getter)
  qed
  have "filter (\<lambda>tab. Tab_isActive tab ?s2) (map ?f ?ts)
      = map ?f (filter (\<lambda>t. Tab_isActive (?f t) ?s2) ?ts)"
    by (simp add: filter_map comp_def)
  also have "filter (\<lambda>t. Tab_isActive (?f t) ?s2) ?ts
      = filter (\<lambda>t. tabId s t = g_activeTabId (groupAt s g)) ?ts"
    by (rule filter_cong) (simp_all add: act)
  finally have "length (filter (\<lambda>tab. Tab_isActive tab ?s2) (map ?f ?ts))
      = length (filter (\<lambda>t. tabId s t = g_activeTabId (groupAt s g)) ?ts)" by simp
  moreover have "length (filter (\<lambda>t. tabId s t = g_activeTabId (groupAt s g)) ?ts) \<le> 1"
    using dt by (rule distinct_filter_le_1)
  ultimately show ?thesis using res by (simp add: gt)
qed

text \<open>
  Claim C2. In every reachable state in which the group ids of the store are distinct and
  the tab ids of each group of the store are distinct, the public group objects that
  \<^verbatim>\<open>tabGroups.groups\<close> returns hold at most one whose \<^verbatim>\<open>isActive\<close> is true, and
  for each of them the public tab objects that its \<^verbatim>\<open>tabs\<close> returns hold at most one
  whose \<^verbatim>\<open>isActive\<close> is true: each getter compares the id of its own record with the
  one active id of the store, respectively of the group.
\<close>

theorem at_most_one_active:
  assumes r: "reachable s"
    and dg: "distinct (map (groupId s) (extHostTabGroups s))"
    and dt: "\<forall>g\<in>set (extHostTabGroups s). distinct (map (tabId s) (g_tabs (groupAt s g)))"
  shows "length (filter (\<lambda>grp. Group_isActive grp (snd (TabGroups_groups s)))
                   (fst (TabGroups_groups s))) \<le> 1
    \<and> (\<forall>grp\<in>set (fst (TabGroups_groups s)).
          length (filter (\<lambda>tab. Tab_isActive tab (snd (Group_tabs grp (snd (TabGroups_groups s)))))
                    (fst (Group_tabs grp (snd (TabGroups_groups s))))) \<le> 1)"
proof
  have inv: "heap_inv s" by (rule reachable_heap_inv[OF r])
  show "length (filter (\<lambda>grp. Group_isActive grp (snd (TabGroups_groups s)))
                   (fst (TabGroups_groups s))) \<le> 1"
    by (rule groups_isActive_count[OF inv dg])
  let ?gs = "extHostTabGroups s"
  let ?s1 = "snd (TabGroups_groups s)"
  have s1: "?s1 = snd (groups_apiObjects ?gs s)" by (simp add: TabGroups_groups_def)
  have dom: "\<forall>g\<in>set ?gs. group_heap s g \<noteq> None" using heap_inv_store[OF inv] by blast
  from groups_apiObjects_inv[OF inv dom] have inv1: "heap_inv ?s1" and ext: "hext s ?s1"
    by (simp_all add: s1)
  note res = groups_apiObjects_result[of ?gs s]
  show "\<forall>grp\<in>set (fst (TabGroups_groups s)).
          length (filter (\<lambda>tab. Tab_isActive tab (snd (Group_tabs grp ?s1)))
                    (fst (Group_tabs grp ?s1))) \<le> 1"
  proof
    fix grp assume "grp \<in> set (fst (TabGroups_groups s))"
    with res obtain g where g: "g \<in> set ?gs" and grp: "grp = the (g_apiObject (groupAt ?s1 g))"
      by (auto simp: TabGroups_groups_def)
    from res g have "g_apiObject (groupAt ?s1 g) \<noteq> None" by (simp add: s1)
    with grp have api: "g_apiObject (groupAt ?s1 g) = Some grp" by auto
    have d1: "group_heap ?s1 g \<noteq> None" using hext_group_dom[OF ext] dom g by blast
    have tabs1: "g_tabs (groupAt ?s1 g) = g_tabs (groupAt s g)" by (simp add: s1)
    have ids1: "\<And>t. tabId ?s1 t = tabId s t" by (simp add: s1 tabId_def tabAt_def)
    have "distinct (map (tabId ?s1) (g_tabs (groupAt ?s1 g)))"
      using dt g by (simp add: tabs1 ids1 cong: map_cong)
    from tabs_isActive_count[OF inv1 d1 api this]
    show "length (filter (\<lambda>tab. Tab_isActive tab (snd (Group_tabs grp ?s1)))
                    (fst (Group_tabs grp ?s1))) \<le> 1" .
  qed
qed

lemma reachable_after_open: "reachable after_open"
  unfolding after_open_def after_snapshot_def
  by (intro reachable.r_tabOperation reachable.r_model reachable.r_initial)

lemma after_open_groups:
  "TabGroups_groups after_open = ([2], after_open)"
  by (simp add: TabGroups_groups_def scenario_defs step_defs)

theorem at_most_one_active_witness:
  "reachable after_open
   \<and> extHostTabGroups after_open = [0]
   \<and> distinct (map (groupId after_open) (extHostTabGroups after_open))
   \<and> distinct (map (tabId after_open) (g_tabs (groupAt after_open 0)))
   \<and> fst (TabGroups_groups after_open) = [2]
   \<and> length (filter (\<lambda>grp. Group_isActive grp (snd (TabGroups_groups after_open)))
               (fst (TabGroups_groups after_open))) \<le> 1
   \<and> length (filter (\<lambda>tab. Tab_isActive tab (snd (Group_tabs 2 (snd (TabGroups_groups after_open)))))
               (fst (Group_tabs 2 (snd (TabGroups_groups after_open))))) \<le> 1"
proof -
  have g: "extHostTabGroups after_open = [0]" by (rule after_open_group(1))
  have dg: "distinct (map (groupId after_open) (extHostTabGroups after_open))" by (simp add: g)
  have d0: "distinct (map (tabId after_open) (g_tabs (groupAt after_open 0)))"
    by (simp add: after_open_group)
  have dt: "\<forall>g\<in>set (extHostTabGroups after_open).
      distinct (map (tabId after_open) (g_tabs (groupAt after_open g)))"
    using d0 by (simp add: g)
  from at_most_one_active[OF reachable_after_open dg dt]
  show ?thesis using reachable_after_open g dg d0 by (simp add: after_open_groups)
qed

lemma after_open_observed:
  "fst (Group_tabs 2 after_open) = [5, 4]"
  "filter (\<lambda>tab. Tab_isActive tab (snd (Group_tabs 2 after_open))) (fst (Group_tabs 2 after_open)) = [5]"
  "Tab_label 5 (snd (Group_tabs 2 after_open)) = ''a.txt''"
  by (simp_all add: Group_tabs_def Group_that_def Tab_isActive_def Tab_that_def Tab_label_def
       scenario_defs step_defs)

subsection \<open>Closing tabs and groups that do not resolve\<close>

lemma tab_apiObject_heap_next: "heap_next s \<le> heap_next (snd (tab_apiObject t s))"
  by (simp add: tab_apiObject_def Let_def split: option.split)

lemma tab_apiObject_not_api:
  assumes a: "a < heap_next s" and n: "t_apiObject (tabAt s t') \<noteq> Some a"
  shows "t_apiObject (tabAt (snd (tab_apiObject t s)) t') \<noteq> Some a"
  using a n by (auto simp: tab_apiObject_def tabAt_def Let_def split: option.split)

lemma tab_apiObject_result_not:
  assumes a: "a < heap_next s" and n: "t_apiObject (tabAt s t) \<noteq> Some a"
  shows "fst (tab_apiObject t s) \<noteq> a"
  using a n by (auto simp: tab_apiObject_def Let_def split: option.split)

lemma findTabFromApi_tabs_frame [simp]:
  "group_heap (snd (findTabFromApi_tabs x ts s)) = group_heap s"
  "extHostTabGroups (snd (findTabFromApi_tabs x ts s)) = extHostTabGroups s"
  "proxy (snd (findTabFromApi_tabs x ts s)) = proxy s"
  by (induction ts arbitrary: s; simp add: split_beta Let_def)+

lemma findTabFromApi_tabs_unresolved:
  "a < heap_next s \<Longrightarrow>
     a < heap_next (snd (findTabFromApi_tabs x ts s))
     \<and> (\<forall>t'. t_apiObject (tabAt s t') \<noteq> Some a \<longrightarrow>
              t_apiObject (tabAt (snd (findTabFromApi_tabs x ts s)) t') \<noteq> Some a)
     \<and> (x = a \<and> (\<forall>t\<in>set ts. t_apiObject (tabAt s t) \<noteq> Some a) \<longrightarrow>
              fst (findTabFromApi_tabs x ts s) = None)"
proof (induction ts arbitrary: s)
  case Nil
  then show ?case by simp
next
  case (Cons t ts)
  let ?s1 = "snd (tab_apiObject t s)"
  have a1: "a < heap_next ?s1" using Cons.prems tab_apiObject_heap_next[of s t] by simp
  note ih = Cons.IH[OF a1]
  have keep: "\<And>t'. t_apiObject (tabAt s t') \<noteq> Some a \<Longrightarrow> t_apiObject (tabAt ?s1 t') \<noteq> Some a"
    by (rule tab_apiObject_not_api[OF Cons.prems])
  show ?case
  proof (cases "fst (tab_apiObject t s) = x")
    case True
    then have r: "findTabFromApi_tabs x (t # ts) s = (Some t, ?s1)" by (simp add: split_beta)
    have "\<not> (x = a \<and> (\<forall>t\<in>set (t # ts). t_apiObject (tabAt s t) \<noteq> Some a))"
      using True tab_apiObject_result_not[OF Cons.prems, of t] by auto
    with a1 keep show ?thesis unfolding r by simp
  next
    case False
    then have r: "findTabFromApi_tabs x (t # ts) s = findTabFromApi_tabs x ts ?s1"
      by (simp add: split_beta)
    show ?thesis unfolding r using ih keep by auto
  qed
qed

lemma findTabFromApi_groups_frame [simp]:
  "group_heap (snd (findTabFromApi_groups x gs s)) = group_heap s"
  "extHostTabGroups (snd (findTabFromApi_groups x gs s)) = extHostTabGroups s"
  "proxy (snd (findTabFromApi_groups x gs s)) = proxy s"
  by (induction gs arbitrary: s; simp add: split_beta split: option.split)+

lemma findTabFromApi_groups_unresolved:
  "a < heap_next s \<Longrightarrow>
     a < heap_next (snd (findTabFromApi_groups x gs s))
     \<and> (\<forall>t'. t_apiObject (tabAt s t') \<noteq> Some a \<longrightarrow>
              t_apiObject (tabAt (snd (findTabFromApi_groups x gs s)) t') \<noteq> Some a)
     \<and> (x = a \<and> (\<forall>g\<in>set gs. \<forall>t\<in>set (g_tabs (groupAt s g)). t_apiObject (tabAt s t) \<noteq> Some a) \<longrightarrow>
              fst (findTabFromApi_groups x gs s) = None)"
proof (induction gs arbitrary: s)
  case Nil
  then show ?case by simp
next
  case (Cons g gs)
  let ?r = "findTabFromApi_tabs x (g_tabs (groupAt s g)) s"
  note t = findTabFromApi_tabs_unresolved[OF Cons.prems, of x "g_tabs (groupAt s g)"]
  from t have a1: "a < heap_next (snd ?r)" by simp
  note ih = Cons.IH[OF a1]
  have ga: "\<And>g'. groupAt (snd ?r) g' = groupAt s g'" by (simp add: groupAt_def)
  show ?case
  proof (cases "fst ?r")
    case None
    then have r: "findTabFromApi_groups x (g # gs) s = findTabFromApi_groups x gs (snd ?r)"
      by (simp add: split_beta)
    show ?thesis unfolding r using ih t by (auto simp: ga)
  next
    case (Some tab)
    then have r: "findTabFromApi_groups x (g # gs) s = (Some tab, snd ?r)"
      by (simp add: split_beta)
    show ?thesis unfolding r using t Some by auto
  qed
qed

lemma resolvesTab_after:
  assumes nr: "\<not> resolvesTab s a"
    and gh: "group_heap s' = group_heap s" and eg: "extHostTabGroups s' = extHostTabGroups s"
    and keep: "\<forall>t'. t_apiObject (tabAt s t') \<noteq> Some a \<longrightarrow> t_apiObject (tabAt s' t') \<noteq> Some a"
  shows "\<not> resolvesTab s' a"
proof -
  have "\<And>g. groupAt s' g = groupAt s g" by (simp add: groupAt_def gh)
  with nr keep show ?thesis unfolding resolvesTab_def eg by auto
qed

lemma findExtHostTabFromApi_unresolved:
  assumes a: "a < heap_next s" and nr: "\<not> resolvesTab s a"
  shows "a < heap_next (snd (findExtHostTabFromApi x s))"
    and "\<not> resolvesTab (snd (findExtHostTabFromApi x s)) a"
    and "proxy (snd (findExtHostTabFromApi x s)) = proxy s"
    and "x = a \<Longrightarrow> fst (findExtHostTabFromApi x s) = None"
proof -
  note g = findTabFromApi_groups_unresolved[OF a, of x "extHostTabGroups s"]
  show "a < heap_next (snd (findExtHostTabFromApi x s))"
    using g by (simp add: findExtHostTabFromApi_def)
  show "\<not> resolvesTab (snd (findExtHostTabFromApi x s)) a"
    unfolding findExtHostTabFromApi_def
    by (rule resolvesTab_after[OF nr]) (use g in simp_all)
  show "proxy (snd (findExtHostTabFromApi x s)) = proxy s"
    by (simp add: findExtHostTabFromApi_def)
  assume "x = a"
  with g nr show "fst (findExtHostTabFromApi x s) = None"
    unfolding findExtHostTabFromApi_def resolvesTab_def by blast
qed

lemma closeTabs_loop_unresolved:
  "a \<in> set tabs \<Longrightarrow> a < heap_next s \<Longrightarrow> \<not> resolvesTab s a \<Longrightarrow>
     fst (closeTabs_loop tabs ids s) = Throw TabCloseInvalidTab
     \<and> proxy (snd (closeTabs_loop tabs ids s)) = proxy s"
proof (induction tabs arbitrary: ids s)
  case Nil
  then show ?case by simp
next
  case (Cons x rest)
  let ?r = "findExtHostTabFromApi x s"
  note f = findExtHostTabFromApi_unresolved[OF Cons.prems(2,3), of x]
  show ?case
  proof (cases "fst ?r")
    case None
    then show ?thesis using f(3) by (simp add: split_beta)
  next
    case (Some t)
    with f(4) have "x \<noteq> a" by auto
    with Cons.prems(1) have "a \<in> set rest" by simp
    from Cons.IH[OF this f(1) f(2)] Some f(3) show ?thesis by (simp add: split_beta)
  qed
qed

lemma group_apiObject_heap_next: "heap_next s \<le> heap_next (snd (group_apiObject g s))"
  by (simp add: group_apiObject_def Let_def split: option.split)

lemma group_apiObject_not_api:
  assumes a: "a < heap_next s" and n: "g_apiObject (groupAt s g') \<noteq> Some a"
  shows "g_apiObject (groupAt (snd (group_apiObject g s)) g') \<noteq> Some a"
  using a n by (auto simp: group_apiObject_def groupAt_def Let_def split: option.split)

lemma group_apiObject_result_not:
  assumes a: "a < heap_next s" and n: "g_apiObject (groupAt s g) \<noteq> Some a"
  shows "fst (group_apiObject g s) \<noteq> a"
  using a n by (auto simp: group_apiObject_def Let_def split: option.split)

lemma findGroupFromApi_groups_frame [simp]:
  "extHostTabGroups (snd (findGroupFromApi_groups x gs s)) = extHostTabGroups s"
  "proxy (snd (findGroupFromApi_groups x gs s)) = proxy s"
  by (induction gs arbitrary: s; simp add: split_beta Let_def)+

lemma findGroupFromApi_groups_unresolved:
  "a < heap_next s \<Longrightarrow>
     a < heap_next (snd (findGroupFromApi_groups x gs s))
     \<and> (\<forall>g'. g_apiObject (groupAt s g') \<noteq> Some a \<longrightarrow>
              g_apiObject (groupAt (snd (findGroupFromApi_groups x gs s)) g') \<noteq> Some a)
     \<and> (x = a \<and> (\<forall>g\<in>set gs. g_apiObject (groupAt s g) \<noteq> Some a) \<longrightarrow>
              fst (findGroupFromApi_groups x gs s) = None)"
proof (induction gs arbitrary: s)
  case Nil
  then show ?case by simp
next
  case (Cons g gs)
  let ?s1 = "snd (group_apiObject g s)"
  have a1: "a < heap_next ?s1" using Cons.prems group_apiObject_heap_next[of s g] by simp
  note ih = Cons.IH[OF a1]
  have keep: "\<And>g'. g_apiObject (groupAt s g') \<noteq> Some a \<Longrightarrow> g_apiObject (groupAt ?s1 g') \<noteq> Some a"
    by (rule group_apiObject_not_api[OF Cons.prems])
  show ?case
  proof (cases "fst (group_apiObject g s) = x")
    case True
    then have r: "findGroupFromApi_groups x (g # gs) s = (Some g, ?s1)" by (simp add: split_beta)
    have "\<not> (x = a \<and> (\<forall>g\<in>set (g # gs). g_apiObject (groupAt s g) \<noteq> Some a))"
      using True group_apiObject_result_not[OF Cons.prems, of g] by auto
    with a1 keep show ?thesis unfolding r by simp
  next
    case False
    then have r: "findGroupFromApi_groups x (g # gs) s = findGroupFromApi_groups x gs ?s1"
      by (simp add: split_beta)
    show ?thesis unfolding r using ih keep by auto
  qed
qed

lemma findExtHostTabGroupFromApi_unresolved:
  assumes a: "a < heap_next s" and nr: "\<not> resolvesGroup s a"
  shows "a < heap_next (snd (findExtHostTabGroupFromApi x s))"
    and "\<not> resolvesGroup (snd (findExtHostTabGroupFromApi x s)) a"
    and "proxy (snd (findExtHostTabGroupFromApi x s)) = proxy s"
    and "x = a \<Longrightarrow> fst (findExtHostTabGroupFromApi x s) = None"
proof -
  note g = findGroupFromApi_groups_unresolved[OF a, of x "extHostTabGroups s"]
  show "a < heap_next (snd (findExtHostTabGroupFromApi x s))"
    using g by (simp add: findExtHostTabGroupFromApi_def)
  show "\<not> resolvesGroup (snd (findExtHostTabGroupFromApi x s)) a"
    using g nr by (auto simp: findExtHostTabGroupFromApi_def resolvesGroup_def)
  show "proxy (snd (findExtHostTabGroupFromApi x s)) = proxy s"
    by (simp add: findExtHostTabGroupFromApi_def)
  assume "x = a"
  with g nr show "fst (findExtHostTabGroupFromApi x s) = None"
    unfolding findExtHostTabGroupFromApi_def resolvesGroup_def by blast
qed

lemma closeGroups_loop_unresolved:
  "a \<in> set groups \<Longrightarrow> a < heap_next s \<Longrightarrow> \<not> resolvesGroup s a \<Longrightarrow>
     fst (closeGroups_loop groups ids s) = Throw GroupCloseInvalidGroup
     \<and> proxy (snd (closeGroups_loop groups ids s)) = proxy s"
proof (induction groups arbitrary: ids s)
  case Nil
  then show ?case by simp
next
  case (Cons x rest)
  let ?r = "findExtHostTabGroupFromApi x s"
  note f = findExtHostTabGroupFromApi_unresolved[OF Cons.prems(2,3), of x]
  show ?case
  proof (cases "fst ?r")
    case None
    then show ?thesis using f(3) by (simp add: split_beta)
  next
    case (Some t)
    with f(4) have "x \<noteq> a" by auto
    with Cons.prems(1) have "a \<in> set rest" by simp
    from Cons.IH[OF this f(1) f(2)] Some f(3) show ?thesis by (simp add: split_beta)
  qed
qed

lemma tabs_apiObjects_proxy [simp]: "proxy (snd (tabs_apiObjects ts s)) = proxy s"
  by (induction ts arbitrary: s) (simp_all add: split_beta Let_def)

lemma tabs_apiObjects_unresolved:
  "a < heap_next s \<Longrightarrow>
     a < heap_next (snd (tabs_apiObjects ts s))
     \<and> (\<forall>t'. t_apiObject (tabAt s t') \<noteq> Some a \<longrightarrow>
              t_apiObject (tabAt (snd (tabs_apiObjects ts s)) t') \<noteq> Some a)"
proof (induction ts arbitrary: s)
  case Nil
  then show ?case by simp
next
  case (Cons t ts)
  let ?s1 = "snd (tab_apiObject t s)"
  have a1: "a < heap_next ?s1" using Cons.prems tab_apiObject_heap_next[of s t] by simp
  have keep: "\<And>t'. t_apiObject (tabAt s t') \<noteq> Some a \<Longrightarrow> t_apiObject (tabAt ?s1 t') \<noteq> Some a"
    by (rule tab_apiObject_not_api[OF Cons.prems])
  from Cons.IH[OF a1] keep show ?case by (simp add: split_beta Let_def)
qed

lemma isTabGroup_unresolved:
  assumes a: "a < heap_next s" and nt: "\<not> resolvesTab s a" and ng: "\<not> resolvesGroup s a"
  shows "a < heap_next (snd (isTabGroup other_has_tabs x s))"
    and "\<not> resolvesTab (snd (isTabGroup other_has_tabs x s)) a"
    and "\<not> resolvesGroup (snd (isTabGroup other_has_tabs x s)) a"
    and "proxy (snd (isTabGroup other_has_tabs x s)) = proxy s"
proof -
  let ?ts = "g_tabs (groupAt s (Group_that s x))"
  note t = tabs_apiObjects_unresolved[OF a, of ?ts]
  have rt: "\<not> resolvesTab (snd (tabs_apiObjects ?ts s)) a"
    by (rule resolvesTab_after[OF nt]) (use t in simp_all)
  have rg: "\<not> resolvesGroup (snd (tabs_apiObjects ?ts s)) a"
    using ng by (simp add: resolvesGroup_def groupAt_def)
  show "a < heap_next (snd (isTabGroup other_has_tabs x s))"
    using a t by (simp add: isTabGroup_def Group_tabs_def)
  show "\<not> resolvesTab (snd (isTabGroup other_has_tabs x s)) a"
    using nt rt by (simp add: isTabGroup_def Group_tabs_def)
  show "\<not> resolvesGroup (snd (isTabGroup other_has_tabs x s)) a"
    using ng rg by (simp add: isTabGroup_def Group_tabs_def)
  show "proxy (snd (isTabGroup other_has_tabs x s)) = proxy s"
    by (simp add: isTabGroup_def Group_tabs_def)
qed

lemma closeTabs_unresolved:
  assumes "a \<in> set tabs" and "a < heap_next s" and "\<not> resolvesTab s a"
  shows "fst (closeTabs reply tabs preserveFocus s) = Throw TabCloseInvalidTab
      \<and> proxy (snd (closeTabs reply tabs preserveFocus s)) = proxy s"
  using closeTabs_loop_unresolved[OF assms, of "[]"] by (simp add: closeTabs_def split_beta)

lemma closeGroups_unresolved:
  assumes "a \<in> set groups" and "a < heap_next s" and "\<not> resolvesGroup s a"
  shows "fst (closeGroups reply groups preserveFocus s) = Throw GroupCloseInvalidGroup
      \<and> proxy (snd (closeGroups reply groups preserveFocus s)) = proxy s"
  using closeGroups_loop_unresolved[OF assms, of "[]"] by (simp add: closeGroups_def split_beta)

text \<open>
  Claim C6. When the list passed to \<^verbatim>\<open>_closeTabs\<close> holds a public object that exists
  at the call (it lies below the next free address) and is not the public object of any
  tab of the store, the call throws and the list of requests sent to the main thread is
  the one before the call, whatever the other elements resolve to; the same for
  \<^verbatim>\<open>_closeGroups\<close> and the groups of the store; and \<^verbatim>\<open>tabGroups.close\<close>, which
  calls one or the other, throws and sends nothing when an element is the public object
  of no tab and of no group of the store.
\<close>

theorem close_unresolved_sends_nothing:
  "(tab \<in> set tabs \<and> tab < heap_next s \<and> \<not> resolvesTab s tab \<longrightarrow>
      fst (closeTabs reply tabs preserveFocus s) = Throw TabCloseInvalidTab
      \<and> proxy (snd (closeTabs reply tabs preserveFocus s)) = proxy s)
   \<and> (grp \<in> set groups \<and> grp < heap_next s \<and> \<not> resolvesGroup s grp \<longrightarrow>
      fst (closeGroups reply groups preserveFocus s) = Throw GroupCloseInvalidGroup
      \<and> proxy (snd (closeGroups reply groups preserveFocus s)) = proxy s)
   \<and> (obj \<in> set tabsOrTabGroups \<and> obj < heap_next s \<and> \<not> resolvesTab s obj \<and> \<not> resolvesGroup s obj \<longrightarrow>
      fst (TabGroups_close other_has_tabs reply tabsOrTabGroups preserveFocus s)
        \<in> {Throw TabCloseInvalidTab, Throw GroupCloseInvalidGroup}
      \<and> proxy (snd (TabGroups_close other_has_tabs reply tabsOrTabGroups preserveFocus s)) = proxy s)"
proof (intro conjI impI)
  assume h: "tab \<in> set tabs \<and> tab < heap_next s \<and> \<not> resolvesTab s tab"
  then have l: "fst (closeTabs reply tabs preserveFocus s) = Throw TabCloseInvalidTab
      \<and> proxy (snd (closeTabs reply tabs preserveFocus s)) = proxy s"
    using closeTabs_unresolved[of tab tabs s] by blast
  from l show "fst (closeTabs reply tabs preserveFocus s) = Throw TabCloseInvalidTab" by simp
  from l show "proxy (snd (closeTabs reply tabs preserveFocus s)) = proxy s" by simp
next
  assume h: "grp \<in> set groups \<and> grp < heap_next s \<and> \<not> resolvesGroup s grp"
  then have l: "fst (closeGroups reply groups preserveFocus s) = Throw GroupCloseInvalidGroup
      \<and> proxy (snd (closeGroups reply groups preserveFocus s)) = proxy s"
    using closeGroups_unresolved[of grp groups s] by blast
  from l show "fst (closeGroups reply groups preserveFocus s) = Throw GroupCloseInvalidGroup" by simp
  from l show "proxy (snd (closeGroups reply groups preserveFocus s)) = proxy s" by simp
next
  assume h: "obj \<in> set tabsOrTabGroups \<and> obj < heap_next s \<and> \<not> resolvesTab s obj \<and> \<not> resolvesGroup s obj"
  then obtain first rest where xs: "tabsOrTabGroups = first # rest" by (cases tabsOrTabGroups) auto
  let ?s1 = "snd (isTabGroup other_has_tabs first s)"
  from h have a: "obj < heap_next s" and nt: "\<not> resolvesTab s obj" and ng: "\<not> resolvesGroup s obj"
    and m: "obj \<in> set tabsOrTabGroups" by simp_all
  note i = isTabGroup_unresolved[OF a nt ng, of other_has_tabs first]
  note ct = closeTabs_unresolved[OF m i(1) i(2), of reply preserveFocus]
  note cg = closeGroups_unresolved[OF m i(1) i(3), of reply preserveFocus]
  have r: "TabGroups_close other_has_tabs reply tabsOrTabGroups preserveFocus s
      = (if fst (isTabGroup other_has_tabs first s)
         then closeGroups reply tabsOrTabGroups preserveFocus ?s1
         else closeTabs reply tabsOrTabGroups preserveFocus ?s1)"
    by (simp add: TabGroups_close_def xs split_beta)
  show "fst (TabGroups_close other_has_tabs reply tabsOrTabGroups preserveFocus s)
        \<in> {Throw TabCloseInvalidTab, Throw GroupCloseInvalidGroup}"
    unfolding r using ct cg by simp
  show "proxy (snd (TabGroups_close other_has_tabs reply tabsOrTabGroups preserveFocus s)) = proxy s"
    unfolding r using ct cg i(4) by simp
qed

lemma after_close_store:
  "extHostTabGroups after_close = [0]"
  "g_tabs (groupAt after_close 0) = [3]"
  "t_apiObject (tabAt after_close 3) = Some 4"
  "g_apiObject (groupAt after_close 0) = Some 2"
  "heap_next after_close = 6"
  "proxy after_close = []"
  by (simp_all add: scenario_defs step_defs)

theorem close_unresolved_sends_nothing_witness:
  "resolvesTab after_close 4 \<and> \<not> resolvesTab after_close 5 \<and> 5 < heap_next after_close
   \<and> fst (closeTabs (\<lambda>_. True) [4, 5] None after_close) = Throw TabCloseInvalidTab
   \<and> proxy (snd (closeTabs (\<lambda>_. True) [4, 5] None after_close)) = []
   \<and> resolvesGroup after_close 2 \<and> \<not> resolvesGroup after_close 5
   \<and> fst (closeGroups (\<lambda>_. True) [2, 5] None after_close) = Throw GroupCloseInvalidGroup
   \<and> proxy (snd (closeGroups (\<lambda>_. True) [2, 5] None after_close)) = []
   \<and> fst (TabGroups_close (\<lambda>_. False) (\<lambda>_. True) [4, 5] None after_close) = Throw TabCloseInvalidTab
   \<and> proxy (snd (TabGroups_close (\<lambda>_. False) (\<lambda>_. True) [4, 5] None after_close)) = []"
proof -
  have r4: "resolvesTab after_close 4" by (simp add: resolvesTab_def after_close_store)
  have r5: "\<not> resolvesTab after_close 5" by (simp add: resolvesTab_def after_close_store)
  have g2: "resolvesGroup after_close 2" by (simp add: resolvesGroup_def after_close_store)
  have g5: "\<not> resolvesGroup after_close 5" by (simp add: resolvesGroup_def after_close_store)
  have n: "5 < heap_next after_close" by (simp add: after_close_store)
  have t4: "apiGroup_heap after_close 4 = None \<and> apiTab_heap after_close 4 \<noteq> None"
    by (simp add: scenario_defs step_defs)
  have c: "TabGroups_close (\<lambda>_. False) (\<lambda>_. True) [4, 5] None after_close
      = closeTabs (\<lambda>_. True) [4, 5] None after_close"
    using t4 by (simp add: TabGroups_close_def isTabGroup_def)
  from close_unresolved_sends_nothing[of 5 "[4, 5]" after_close "\<lambda>_. True" None 5 "[2, 5]"
      5 "[4, 5]" "\<lambda>_. False"] r5 g5 n
  show ?thesis using r4 g2 c by (simp add: after_close_store)
qed

text \<open>When every element resolves, the one batched request is sent.\<close>

lemma close_resolved_sends_request:
  "closeTabs (\<lambda>_. True) [4] None after_close
     = (Return True, after_close\<lparr>proxy := [closeTab [''b''] None]\<rparr>)"
  by (simp add: closeTabs_def findExtHostTabFromApi_def scenario_defs step_defs)

subsection \<open>The public object of a tab\<close>

lemma initInput_acceptDtoUpdate_obj:
  "initInput (acceptDtoUpdate_obj dto this) = t_input (acceptDtoUpdate_obj dto this)"
  by (simp add: initInput_def)

lemma fold_acceptDtoUpdate:
  "apiTab_heap (fold (acceptDtoUpdate t) dtos s) = apiTab_heap s
   \<and> group_heap (fold (acceptDtoUpdate t) dtos s) = group_heap s
   \<and> heap_next (fold (acceptDtoUpdate t) dtos s) = heap_next s
   \<and> t_apiObject (tabAt (fold (acceptDtoUpdate t) dtos s) t) = t_apiObject (tabAt s t)
   \<and> t_activeTabIdGetter (tabAt (fold (acceptDtoUpdate t) dtos s) t) = t_activeTabIdGetter (tabAt s t)
   \<and> t_parentGroup (tabAt (fold (acceptDtoUpdate t) dtos s) t) = t_parentGroup (tabAt s t)
   \<and> (dtos \<noteq> [] \<longrightarrow>
        t_dto (tabAt (fold (acceptDtoUpdate t) dtos s) t) = last dtos
        \<and> t_input (tabAt (fold (acceptDtoUpdate t) dtos s) t)
            = initInput (tabAt (fold (acceptDtoUpdate t) dtos s) t))"
proof (induction dtos rule: rev_induct)
  case Nil
  show ?case by simp
next
  case (snoc dto dtos)
  then show ?case by (simp add: initInput_acceptDtoUpdate_obj)
qed

text \<open>
  Claim C8. A tab is constructed without a public object. In a reachable state, the
  \<^verbatim>\<open>apiObject\<close> accessor of a tab constructs the public object only when none is
  memoized, at the next free address, and otherwise returns the memoized one and leaves
  the state alone; the object is frozen and reads through to this tab. After any sequence
  of \<^verbatim>\<open>acceptDtoUpdate\<close> calls on the tab the accessor returns the same object and
  constructs nothing, the public objects are as they were, and the getters of the object
  give the fields of the tab's current record and kind, which are those of the last record
  accepted.
\<close>

theorem apiObject_stable:
  assumes r: "reachable s" and dom: "tab_heap s t \<noteq> None"
    and acc: "tab_apiObject t s = (obj, s1)"
    and upd: "s2 = fold (acceptDtoUpdate t) dtos s1"
  shows "t_apiObject (tabAt (snd (new_ExtHostEditorTab dto p a s)) (fst (new_ExtHostEditorTab dto p a s))) = None
    \<and> (t_apiObject (tabAt s t) = None \<longrightarrow> obj = heap_next s \<and> apiTab_heap s obj = None)
    \<and> (t_apiObject (tabAt s t) \<noteq> None \<longrightarrow> t_apiObject (tabAt s t) = Some obj \<and> s1 = s)
    \<and> apiTab_heap s1 obj = Some \<lparr>tab_that = t, tab_frozen = True\<rparr>
    \<and> tab_apiObject t s1 = (obj, s1)
    \<and> tab_apiObject t s2 = (obj, s2)
    \<and> apiTab_heap s2 = apiTab_heap s1
    \<and> Tab_label obj s2 = td_label (t_dto (tabAt s2 t))
    \<and> Tab_isDirty obj s2 = td_isDirty (t_dto (tabAt s2 t))
    \<and> Tab_isPinned obj s2 = td_isPinned (t_dto (tabAt s2 t))
    \<and> Tab_isPreview obj s2 = td_isPreview (t_dto (tabAt s2 t))
    \<and> Tab_isActive obj s2 = (td_id (t_dto (tabAt s2 t)) = activeTabId (t_activeTabIdGetter (tabAt s t)) s2)
    \<and> Tab_kind obj s2 = t_input (tabAt s2 t)
    \<and> (dtos \<noteq> [] \<longrightarrow> t_dto (tabAt s2 t) = last dtos \<and> t_input (tabAt s2 t) = initInput (tabAt s2 t))"
proof -
  have inv: "heap_inv s" by (rule reachable_heap_inv[OF r])
  from acc have o: "obj = fst (tab_apiObject t s)" and s1: "s1 = snd (tab_apiObject t s)" by simp_all
  have inv1: "heap_inv s1" unfolding s1 by (rule tab_apiObject_inv[OF inv dom])
  have memo: "t_apiObject (tabAt s1 t) = Some obj" unfolding o s1 by (rule tab_apiObject_memo)
  have d1: "tab_heap s1 t \<noteq> None" unfolding s1 by (rule hext_tab_dom[OF tab_apiObject_hext dom])
  then obtain tab where tab: "tab_heap s1 t = Some tab" by blast
  from tabs_okD[OF inv1 tab] memo tab
  have link: "apiTab_heap s1 obj = Some \<lparr>tab_that = t, tab_frozen = True\<rparr>"
    by (simp add: tab_wf_def tabAt_def)
  note f = fold_acceptDtoUpdate[of t dtos s1]
  have memo2: "t_apiObject (tabAt s2 t) = Some obj" using f memo by (simp add: upd)
  have link2: "apiTab_heap s2 obj = Some \<lparr>tab_that = t, tab_frozen = True\<rparr>"
    using f link by (simp add: upd)
  have that2: "Tab_that s2 obj = tabAt s2 t" using link2 by (simp add: Tab_that_def)
  have getter: "t_activeTabIdGetter (tabAt s2 t) = t_activeTabIdGetter (tabAt s t)"
    using f by (simp add: upd s1)
  have c1: "t_apiObject (tabAt (snd (new_ExtHostEditorTab dto p a s)) (fst (new_ExtHostEditorTab dto p a s))) = None"
    by (simp add: tabAt_def)
  have c2: "t_apiObject (tabAt s t) = None \<longrightarrow> obj = heap_next s \<and> apiTab_heap s obj = None"
  proof
    assume n: "t_apiObject (tabAt s t) = None"
    then have e: "obj = heap_next s" using acc by (simp add: tab_apiObject_def Let_def)
    have "apiTab_heap s (heap_next s) = None"
    proof (cases "apiTab_heap s (heap_next s)")
      case None
      then show ?thesis .
    next
      case (Some x)
      from apiTabs_okD[OF inv Some] show ?thesis by simp
    qed
    with e show "obj = heap_next s \<and> apiTab_heap s obj = None" by simp
  qed
  have c3: "t_apiObject (tabAt s t) \<noteq> None \<longrightarrow> t_apiObject (tabAt s t) = Some obj \<and> s1 = s"
    using acc by (auto simp: tab_apiObject_def)
  have c5: "tab_apiObject t s1 = (obj, s1)" using memo by (simp add: tab_apiObject_def)
  have c6: "tab_apiObject t s2 = (obj, s2)" using memo2 by (simp add: tab_apiObject_def)
  have c7: "apiTab_heap s2 = apiTab_heap s1" using f by (simp add: upd)
  have c8: "Tab_label obj s2 = td_label (t_dto (tabAt s2 t))
    \<and> Tab_isDirty obj s2 = td_isDirty (t_dto (tabAt s2 t))
    \<and> Tab_isPinned obj s2 = td_isPinned (t_dto (tabAt s2 t))
    \<and> Tab_isPreview obj s2 = td_isPreview (t_dto (tabAt s2 t))
    \<and> Tab_isActive obj s2 = (td_id (t_dto (tabAt s2 t)) = activeTabId (t_activeTabIdGetter (tabAt s t)) s2)
    \<and> Tab_kind obj s2 = t_input (tabAt s2 t)"
    by (simp add: Tab_label_def Tab_isDirty_def Tab_isPinned_def Tab_isPreview_def Tab_isActive_def
        Tab_kind_def that2 getter)
  have c9: "dtos \<noteq> [] \<longrightarrow> t_dto (tabAt s2 t) = last dtos \<and> t_input (tabAt s2 t) = initInput (tabAt s2 t)"
    using f by (simp add: upd)
  from c1 c2 c3 link c5 c6 c7 c8 c9 show ?thesis by blast
qed

lemma reachable_after_snapshot: "reachable after_snapshot"
  unfolding after_snapshot_def by (intro reachable.r_model reachable.r_initial)

theorem apiObject_stable_witness:
  "reachable after_snapshot \<and> tab_heap after_snapshot (Suc 0) \<noteq> None
   \<and> t_apiObject (tabAt after_snapshot (Suc 0)) = None
   \<and> fst (tab_apiObject (Suc 0) after_snapshot) = 3
   \<and> tab_apiObject (Suc 0)
        (fold (acceptDtoUpdate (Suc 0)) [tab_b, tab_a_dirty] (snd (tab_apiObject (Suc 0) after_snapshot)))
      = (3, fold (acceptDtoUpdate (Suc 0)) [tab_b, tab_a_dirty] (snd (tab_apiObject (Suc 0) after_snapshot)))
   \<and> Tab_label 3 (snd (tab_apiObject (Suc 0) after_snapshot)) = ''a.txt''
   \<and> Tab_label 3 (fold (acceptDtoUpdate (Suc 0)) [tab_b, tab_a_dirty]
        (snd (tab_apiObject (Suc 0) after_snapshot))) = ''a.txt (edited)''
   \<and> Tab_isDirty 3 (fold (acceptDtoUpdate (Suc 0)) [tab_b, tab_a_dirty]
        (snd (tab_apiObject (Suc 0) after_snapshot)))"
proof -
  have d: "tab_heap after_snapshot (Suc 0) \<noteq> None" by (simp add: scenario_defs step_defs)
  have n: "t_apiObject (tabAt after_snapshot (Suc 0)) = None" by (simp add: scenario_defs step_defs)
  have h: "heap_next after_snapshot = 3" by (rule after_snapshot_group)
  have f3: "fst (tab_apiObject (Suc 0) after_snapshot) = 3"
    using n h by (simp add: tab_apiObject_def Let_def)
  have a: "tab_apiObject (Suc 0) after_snapshot = (3, snd (tab_apiObject (Suc 0) after_snapshot))"
    using f3 by (simp add: prod_eq_iff)
  have l: "Tab_label 3 (snd (tab_apiObject (Suc 0) after_snapshot)) = ''a.txt''"
    using n h by (simp add: tab_apiObject_def Let_def Tab_label_def Tab_that_def tabAt_def)
      (simp add: scenario_defs step_defs)
  from apiObject_stable[OF reachable_after_snapshot d a refl, where dtos = "[tab_b, tab_a_dirty]"
      and dto = tab_a and p = 0 and a = 0]
  show ?thesis using reachable_after_snapshot d n f3 l by (simp add: tab_a_dirty_def)
qed

end
